theory Spec2Isabelle
  imports Main
begin

section \<open>Conway's Game of Life: the automaton engine of game_of_life.py\<close>

text \<open>
  The engine keeps every cell as an object that holds references to its eight neighbours.
  The model keeps the objects in an explicit store: the flat list \<open>_cells\<close> of the
  universe. A reference to a cell is its position in that list, so the grid \<open>_board\<close> and
  the neighbour slots hold positions, and an update of a cell is seen through every
  reference to it, as in the source.

  An exception is a value \<open>Inl (e, s)\<close>: the error raised and the object as the raise
  leaves it. A normal return is \<open>Inr\<close>.
\<close>

subsection \<open>Data model\<close>

datatype error = AssertionError | IndexError | TypeError

type_synonym ('s, 'a) result = "(error \<times> 's) + 'a"

text \<open>
  A \<open>Neighbours\<close> instance: one slot per descriptor. \<open>None\<close> is a name absent from the
  instance dictionary, which the descriptor's \<open>__get__\<close> resolves to the shared
  \<open>Cell.NULL\<close>. The slot \<open>top\<close> is called \<open>top_nb\<close> here, \<open>top\<close> being a constant of HOL.
\<close>

record Neighbours =
  top_nb :: "nat option"
  top_right :: "nat option"
  right :: "nat option"
  bottom_right :: "nat option"
  bottom :: "nat option"
  bottom_left :: "nat option"
  left :: "nat option"
  top_left :: "nat option"

text \<open>
  A \<open>Cell\<close>: \<open>state\<close> is \<open>_state\<close> and \<open>state_dirty\<close> is \<open>_state_dirty\<close>, both a Python
  integer or \<open>None\<close>. The \<open>rectangle\<close> handle of the renderer is left out.
\<close>

record Cell =
  state :: "int option"
  state_dirty :: "int option"
  pos_x :: nat
  pos_y :: nat
  neighbours :: Neighbours

record Universe =
  board :: "nat list list"
  cells :: "Cell list"

subsection \<open>Cell\<close>

text \<open>\<open>NullCell._state = 0\<close>\<close>

definition NullCell_state :: "int option" where
  "NullCell_state = Some 0"

text \<open>\<open>Neighbours()\<close>: a fresh instance has an empty dictionary.\<close>

definition Neighbours_init :: Neighbours where
  "Neighbours_init = \<lparr>top_nb = None, top_right = None, right = None, bottom_right = None,
     bottom = None, bottom_left = None, left = None, top_left = None\<rparr>"

text \<open>\<open>Cell.__init__(is_alive, pos_x, pos_y)\<close>\<close>

definition Cell_init :: "bool \<Rightarrow> nat \<Rightarrow> nat \<Rightarrow> Cell" where
  "Cell_init alive x y = \<lparr>state = Some (of_bool alive), state_dirty = None,
     pos_x = x, pos_y = y, neighbours = Neighbours_init\<rparr>"

text \<open>The property \<open>is_alive\<close>: \<open>bool(self._state)\<close>, and \<open>bool(None)\<close> is \<open>False\<close>.\<close>

definition is_alive :: "Cell \<Rightarrow> bool" where
  "is_alive c = (case state c of None \<Rightarrow> False | Some n \<Rightarrow> n \<noteq> 0)"

text \<open>
  The setter of \<open>is_alive\<close>: \<open>assert self._state_dirty is None\<close>, then
  \<open>self._state_dirty = int(alive)\<close>. The \<open>assert\<close> is taken as Python runs it by
  default, with assertions enabled: it raises \<open>AssertionError\<close> before anything is
  assigned.
\<close>

definition set_is_alive :: "Cell \<Rightarrow> bool \<Rightarrow> (Cell, Cell) result" where
  "set_is_alive c alive =
     (if state_dirty c \<noteq> None then Inl (AssertionError, c)
      else Inr (c\<lparr>state_dirty := Some (of_bool alive)\<rparr>))"

text \<open>
  \<open>commit\<close>: \<open>self._state = self._state_dirty\<close>, then \<open>self._state_dirty = None\<close>.
  Nothing is checked and nothing is raised.
\<close>

definition commit :: "Cell \<Rightarrow> (Cell, Cell) result" where
  "commit c = Inr (c\<lparr>state := state_dirty c, state_dirty := None\<rparr>)"

subsection \<open>Neighbour relation\<close>

text \<open>The descriptors read on the class: the relative offsets \<open>(x, y)\<close>.\<close>

definition Neighbours_top :: "int \<times> int" where "Neighbours_top = (0, -1)"
definition Neighbours_top_right :: "int \<times> int" where "Neighbours_top_right = (1, -1)"
definition Neighbours_right :: "int \<times> int" where "Neighbours_right = (1, 0)"
definition Neighbours_bottom_right :: "int \<times> int" where "Neighbours_bottom_right = (1, 1)"
definition Neighbours_bottom :: "int \<times> int" where "Neighbours_bottom = (0, 1)"
definition Neighbours_bottom_left :: "int \<times> int" where "Neighbours_bottom_left = (-1, 1)"
definition Neighbours_left :: "int \<times> int" where "Neighbours_left = (-1, 0)"
definition Neighbours_top_left :: "int \<times> int" where "Neighbours_top_left = (-1, -1)"

text \<open>
  \<open>Neighbour.__set__\<close> on an instance: a value that is not \<open>None\<close> is stored under the
  descriptor's name, \<open>None\<close> leaves the slot as it is.
\<close>

definition Neighbour_set :: "nat option \<Rightarrow> nat option \<Rightarrow> nat option" where
  "Neighbour_set slot v = (case v of None \<Rightarrow> slot | Some r \<Rightarrow> Some r)"

text \<open>
  \<open>Neighbour.__get__\<close> on an instance followed by \<open>._state\<close>: the state of the
  referenced cell in the store, or that of \<open>Cell.NULL\<close> for an absent name. A slot
  only ever holds a reference that the constructor took from the board, a position of
  the store.
\<close>

definition Neighbour_state :: "Cell list \<Rightarrow> nat option \<Rightarrow> int option" where
  "Neighbour_state cs slot =
     (case slot of None \<Rightarrow> NullCell_state | Some r \<Rightarrow> state (cs ! r))"

text \<open>Python's \<open>+\<close> on two states: a \<open>None\<close> operand raises \<open>TypeError\<close>.\<close>

definition py_add :: "error + int \<Rightarrow> int option \<Rightarrow> error + int" where
  "py_add a b =
     (case a of Inl e \<Rightarrow> Inl e
      | Inr m \<Rightarrow> (case b of None \<Rightarrow> Inl TypeError | Some n \<Rightarrow> Inr (m + n)))"

definition get_alive_count :: "Cell list \<Rightarrow> Neighbours \<Rightarrow> error + int" where
  "get_alive_count cs nb =
     py_add (py_add (py_add (py_add (py_add (py_add (py_add
       (py_add (Inr 0) (Neighbour_state cs (top_nb nb)))
       (Neighbour_state cs (top_right nb)))
       (Neighbour_state cs (right nb)))
       (Neighbour_state cs (bottom_right nb)))
       (Neighbour_state cs (bottom nb)))
       (Neighbour_state cs (bottom_left nb)))
       (Neighbour_state cs (left nb)))
       (Neighbour_state cs (top_left nb))"

subsection \<open>Universe: construction\<close>

text \<open>
  First pass of \<open>Universe.__init__\<close>: for every \<open>row_ptr\<close> in \<open>range(height)\<close> a new row
  is appended to the board, and for every \<open>col_ptr\<close> in \<open>range(width)\<close> a dead cell is
  appended to the row and to \<open>_cells\<close>. \<open>range\<close> of a number below 1 is empty.
\<close>

definition init_cell :: "nat \<Rightarrow> nat \<Rightarrow> nat list \<times> Cell list \<Rightarrow> nat list \<times> Cell list" where
  "init_cell row_ptr col_ptr = (\<lambda>(row, cs).
     (row @ [length cs], cs @ [Cell_init False col_ptr row_ptr]))"

definition init_row :: "int \<Rightarrow> nat \<Rightarrow> nat list list \<times> Cell list \<Rightarrow> nat list list \<times> Cell list" where
  "init_row width row_ptr = (\<lambda>(b, cs).
     (let (row, cs') = fold (init_cell row_ptr) [0..<nat width] ([], cs)
      in (b @ [row], cs')))"

definition init_cells :: "int \<Rightarrow> int \<Rightarrow> nat list list \<times> Cell list" where
  "init_cells width height = fold (init_row width) [0..<nat height] ([], [])"

text \<open>
  The nested \<open>get_neighbour\<close>: the cell of the board at the offset, or \<open>None\<close> outside
  the grid.
\<close>

definition get_neighbour ::
  "nat list list \<Rightarrow> int \<Rightarrow> int \<Rightarrow> nat \<Rightarrow> nat \<Rightarrow> int \<times> int \<Rightarrow> nat option" where
  "get_neighbour b width height col_ptr row_ptr neighbour =
     (let x = int col_ptr + fst neighbour;
          y = int row_ptr + snd neighbour
      in if -1 < x \<and> x < width \<and> -1 < y \<and> y < height
         then Some (b ! nat y ! nat x) else None)"

text \<open>The eight assignments to the slots of \<open>cell.neighbours\<close>.\<close>

definition wire_neighbours ::
  "nat list list \<Rightarrow> int \<Rightarrow> int \<Rightarrow> nat \<Rightarrow> nat \<Rightarrow> Neighbours \<Rightarrow> Neighbours" where
  "wire_neighbours b width height col_ptr row_ptr nb =
     (let g = get_neighbour b width height col_ptr row_ptr in
      \<lparr>top_nb = Neighbour_set (top_nb nb) (g Neighbours_top),
       top_right = Neighbour_set (top_right nb) (g Neighbours_top_right),
       right = Neighbour_set (right nb) (g Neighbours_right),
       bottom_right = Neighbour_set (bottom_right nb) (g Neighbours_bottom_right),
       bottom = Neighbour_set (bottom nb) (g Neighbours_bottom),
       bottom_left = Neighbour_set (bottom_left nb) (g Neighbours_bottom_left),
       left = Neighbour_set (left nb) (g Neighbours_left),
       top_left = Neighbour_set (top_left nb) (g Neighbours_top_left)\<rparr>)"

text \<open>
  Second pass: \<open>for row_ptr, row in enumerate(board)\<close>,
  \<open>for col_ptr, cell in enumerate(row)\<close>, the cell \<open>cell\<close> of the store is wired.
\<close>

definition wire_cell ::
  "nat list list \<Rightarrow> int \<Rightarrow> int \<Rightarrow> nat \<Rightarrow> nat \<times> nat \<Rightarrow> Cell list \<Rightarrow> Cell list" where
  "wire_cell b width height row_ptr = (\<lambda>(col_ptr, cell) cs.
     cs[cell := (cs ! cell)\<lparr>neighbours :=
        wire_neighbours b width height col_ptr row_ptr (neighbours (cs ! cell))\<rparr>])"

definition wire_row ::
  "nat list list \<Rightarrow> int \<Rightarrow> int \<Rightarrow> nat \<times> nat list \<Rightarrow> Cell list \<Rightarrow> Cell list" where
  "wire_row b width height = (\<lambda>(row_ptr, row) cs.
     fold (wire_cell b width height row_ptr) (enumerate 0 row) cs)"

definition wire_cells :: "nat list list \<Rightarrow> int \<Rightarrow> int \<Rightarrow> Cell list \<Rightarrow> Cell list" where
  "wire_cells b width height cs = fold (wire_row b width height) (enumerate 0 b) cs"

text \<open>\<open>Universe.__init__(width, height)\<close>: no argument is rejected.\<close>

definition Universe_init :: "int \<Rightarrow> int \<Rightarrow> (Universe, Universe) result" where
  "Universe_init width height =
     (let (b, cs) = init_cells width height
      in Inr \<lparr>board = b, cells = wire_cells b width height cs\<rparr>)"

subsection \<open>Universe: seeding, tick and query\<close>

text \<open>
  Indexing a Python list: an index from \<open>-len\<close> to \<open>-1\<close> counts from the end, an index
  outside \<open>-len .. len - 1\<close> raises \<open>IndexError\<close>.
\<close>

definition py_index :: "'a list \<Rightarrow> int \<Rightarrow> error + 'a" where
  "py_index xs i =
     (let n = int (length xs); j = (if i < 0 then i + n else i)
      in if 0 \<le> j \<and> j < n then Inr (xs ! nat j) else Inl IndexError)"

text \<open>
  \<open>Universe.__setitem__((x, y), is_alive)\<close>: \<open>cell = self._board[y][x]\<close>, then the
  setter and \<open>commit\<close> on that cell.
\<close>

definition setitem :: "Universe \<Rightarrow> int \<times> int \<Rightarrow> bool \<Rightarrow> (Universe, Universe) result" where
  "setitem u key alive =
     (case py_index (board u) (snd key) of Inl e \<Rightarrow> Inl (e, u)
      | Inr row \<Rightarrow>
     (case py_index row (fst key) of Inl e \<Rightarrow> Inl (e, u)
      | Inr cell \<Rightarrow>
     (case set_is_alive (cells u ! cell) alive of
        Inl (e, c) \<Rightarrow> Inl (e, u\<lparr>cells := (cells u)[cell := c]\<rparr>)
      | Inr c \<Rightarrow>
     (case commit c of
        Inl (e, c') \<Rightarrow> Inl (e, u\<lparr>cells := (cells u)[cell := c']\<rparr>)
      | Inr c' \<Rightarrow> Inr (u\<lparr>cells := (cells u)[cell := c']\<rparr>)))))"

text \<open>
  First loop of \<open>tick\<close>, over the references of \<open>_cells\<close>: the count is read from the
  store as it is, the rule stages the next state, and the cell is appended to \<open>changed\<close>
  in the branches that do so in the source.
\<close>

fun tick_stage :: "nat list \<Rightarrow> Cell list \<Rightarrow> nat list \<Rightarrow> (Cell list, Cell list \<times> nat list) result" where
  "tick_stage [] cs changed = Inr (cs, changed)"
| "tick_stage (cell # rest) cs changed =
     (case get_alive_count cs (neighbours (cs ! cell)) of
        Inl e \<Rightarrow> Inl (e, cs)
      | Inr alive_neighbour_count \<Rightarrow>
          if is_alive (cs ! cell) then
            (case (if \<not> (alive_neighbour_count = 2 \<or> alive_neighbour_count = 3)
                   then set_is_alive (cs ! cell) False
                   else set_is_alive (cs ! cell) True) of
               Inl (e, c) \<Rightarrow> Inl (e, cs[cell := c])
             | Inr c \<Rightarrow> tick_stage rest (cs[cell := c]) (changed @ [cell]))
          else if alive_neighbour_count = 3 then
            (case set_is_alive (cs ! cell) True of
               Inl (e, c) \<Rightarrow> Inl (e, cs[cell := c])
             | Inr c \<Rightarrow> tick_stage rest (cs[cell := c]) (changed @ [cell]))
          else tick_stage rest cs changed)"

text \<open>Second loop of \<open>tick\<close>: \<open>for cell in changed: cell.commit()\<close>.\<close>

fun tick_commit :: "nat list \<Rightarrow> Cell list \<Rightarrow> (Cell list, Cell list) result" where
  "tick_commit [] cs = Inr cs"
| "tick_commit (cell # rest) cs =
     (case commit (cs ! cell) of
        Inl (e, c) \<Rightarrow> Inl (e, cs[cell := c])
      | Inr c \<Rightarrow> tick_commit rest (cs[cell := c]))"

text \<open>\<open>Universe.tick()\<close> returns \<open>changed\<close>; the model returns it with the universe.\<close>

definition tick :: "Universe \<Rightarrow> (Universe, nat list \<times> Universe) result" where
  "tick u =
     (case tick_stage [0..<length (cells u)] (cells u) [] of
        Inl (e, cs) \<Rightarrow> Inl (e, u\<lparr>cells := cs\<rparr>)
      | Inr (cs, changed) \<Rightarrow>
     (case tick_commit changed cs of
        Inl (e, cs') \<Rightarrow> Inl (e, u\<lparr>cells := cs'\<rparr>)
      | Inr cs' \<Rightarrow> Inr (changed, u\<lparr>cells := cs'\<rparr>)))"

text \<open>
  \<open>Universe.to_list()\<close>: one list of booleans per row of the board. Nothing of the
  universe is assigned; the model returns the universe beside the matrix.
\<close>

definition to_list :: "Universe \<Rightarrow> bool list list \<times> Universe" where
  "to_list u = (map (\<lambda>row. map (\<lambda>cell. is_alive (cells u ! cell)) row) (board u), u)"

text \<open>
  The seeding of the callers: \<open>universe[col_ptr, row_ptr] = True\<close> for each live
  coordinate in turn, on a universe that the constructor built.
\<close>

fun seed :: "Universe \<Rightarrow> (int \<times> int) list \<Rightarrow> (Universe, Universe) result" where
  "seed u [] = Inr u"
| "seed u (key # keys) =
     (case setitem u key True of Inl e \<Rightarrow> Inl e | Inr u' \<Rightarrow> seed u' keys)"

definition seeded :: "int \<Rightarrow> int \<Rightarrow> (int \<times> int) list \<Rightarrow> Universe" where
  "seeded w h keys =
     (case Universe_init w h of Inl (e, u) \<Rightarrow> u
      | Inr u \<Rightarrow> (case seed u keys of Inl (e, u') \<Rightarrow> u' | Inr u' \<Rightarrow> u'))"

subsection \<open>Universes of a given width and height\<close>

text \<open>
  The part of a universe that no operation assigns after construction: the board, and
  the position and the neighbour slots of every cell, are those the constructor built
  for the width and the height.
\<close>

definition wired :: "int \<Rightarrow> int \<Rightarrow> Universe \<Rightarrow> bool" where
  "wired w h u =
     (case Universe_init w h of Inl _ \<Rightarrow> False
      | Inr u0 \<Rightarrow> board u = board u0
          \<and> map neighbours (cells u) = map neighbours (cells u0)
          \<and> map pos_x (cells u) = map pos_x (cells u0)
          \<and> map pos_y (cells u) = map pos_y (cells u0))"

text \<open>The stable state: no cell has a staged value pending.\<close>

definition no_pending :: "Universe \<Rightarrow> bool" where
  "no_pending u = list_all (\<lambda>c. state_dirty c = None) (cells u)"

text \<open>Every committed state is the integer of a boolean.\<close>

definition committed :: "Universe \<Rightarrow> bool" where
  "committed u = list_all (\<lambda>c. state c = Some 0 \<or> state c = Some 1) (cells u)"

definition universe :: "int \<Rightarrow> int \<Rightarrow> Universe \<Rightarrow> bool" where
  "universe w h u = (wired w h u \<and> no_pending u \<and> committed u)"

text \<open>The universes that the public operations build.\<close>

inductive reachable :: "int \<Rightarrow> int \<Rightarrow> Universe \<Rightarrow> bool" where
  construct: "Universe_init w h = Inr u \<Longrightarrow> reachable w h u"
| seed: "reachable w h u \<Longrightarrow> setitem u key alive = Inr u' \<Longrightarrow> reachable w h u'"
| step: "reachable w h u \<Longrightarrow> tick u = Inr (changed, u') \<Longrightarrow> reachable w h u'"

text \<open>The cell \<open>self._board[y][x]\<close> of the store.\<close>

definition cell_at :: "Universe \<Rightarrow> nat \<Rightarrow> nat \<Rightarrow> Cell" where
  "cell_at u x y = cells u ! (board u ! y ! x)"

text \<open>
  The committed state at a coordinate as a number, 0 at every coordinate outside the
  grid, and the sum of it over the eight offsets of the neighbour relation.
\<close>

definition alive_xy :: "int \<Rightarrow> int \<Rightarrow> Universe \<Rightarrow> int \<Rightarrow> int \<Rightarrow> int" where
  "alive_xy w h u x y =
     (if 0 \<le> x \<and> x < w \<and> 0 \<le> y \<and> y < h
      then of_bool (is_alive (cell_at u (nat x) (nat y))) else 0)"

definition moore_count :: "int \<Rightarrow> int \<Rightarrow> Universe \<Rightarrow> int \<Rightarrow> int \<Rightarrow> int" where
  "moore_count w h u x y =
     alive_xy w h u x (y - 1) + alive_xy w h u (x + 1) (y - 1)
     + alive_xy w h u (x + 1) y + alive_xy w h u (x + 1) (y + 1)
     + alive_xy w h u x (y + 1) + alive_xy w h u (x - 1) (y + 1)
     + alive_xy w h u (x - 1) y + alive_xy w h u (x - 1) (y - 1)"

text \<open>
  A universe holds a pattern: the live cells are those whose coordinates satisfy it.
\<close>

definition pattern :: "int \<Rightarrow> int \<Rightarrow> Universe \<Rightarrow> (int \<Rightarrow> int \<Rightarrow> bool) \<Rightarrow> bool" where
  "pattern w h u P =
     (map is_alive (cells u) =
      map (\<lambda>i. P (int (i mod nat w)) (int (i div nat w))) [0..<nat h * nat w])"

text \<open>
  Three cells in a row around a centre, horizontally and vertically, and a block of
  two by two cells from its top left corner.
\<close>

definition row3 :: "int \<Rightarrow> int \<Rightarrow> int \<Rightarrow> int \<Rightarrow> bool" where
  "row3 cx cy x y = (y = cy \<and> cx - 1 \<le> x \<and> x \<le> cx + 1)"

definition col3 :: "int \<Rightarrow> int \<Rightarrow> int \<Rightarrow> int \<Rightarrow> bool" where
  "col3 cx cy x y = (x = cx \<and> cy - 1 \<le> y \<and> y \<le> cy + 1)"

definition block2 :: "int \<Rightarrow> int \<Rightarrow> int \<Rightarrow> int \<Rightarrow> bool" where
  "block2 bx by x y = (bx \<le> x \<and> x \<le> bx + 1 \<and> by \<le> y \<and> y \<le> by + 1)"



text \<open>
  The part of a pattern inside the grid, and the number of coordinates of a pattern
  among the eight around a coordinate.
\<close>

definition inside :: "int \<Rightarrow> int \<Rightarrow> (int \<Rightarrow> int \<Rightarrow> bool) \<Rightarrow> int \<Rightarrow> int \<Rightarrow> bool" where
  "inside w h P x y = (0 \<le> x \<and> x < w \<and> 0 \<le> y \<and> y < h \<and> P x y)"

definition count8 :: "(int \<Rightarrow> int \<Rightarrow> bool) \<Rightarrow> int \<Rightarrow> int \<Rightarrow> int" where
  "count8 Q x y =
     of_bool (Q x (y - 1)) + of_bool (Q (x + 1) (y - 1))
     + of_bool (Q (x + 1) y) + of_bool (Q (x + 1) (y + 1))
     + of_bool (Q x (y + 1)) + of_bool (Q (x - 1) (y + 1))
     + of_bool (Q (x - 1) y) + of_bool (Q (x - 1) (y - 1))"

text \<open>Conway's rule: survival on 2 or 3 live neighbours, birth on exactly 3.\<close>

definition conway :: "bool \<Rightarrow> int \<Rightarrow> bool" where
  "conway alive n = (if alive then n = 2 \<or> n = 3 else n = 3)"

subsection \<open>Closed forms\<close>

text \<open>
  What the loops compute, written without the loops; the lemmas below prove each equal
  to the loop it describes. The board holds the references in row-major order.
\<close>

definition grid :: "int \<Rightarrow> int \<Rightarrow> nat list list" where
  "grid w h = map (\<lambda>y. map (\<lambda>x. y * nat w + x) [0..<nat w]) [0..<nat h]"

text \<open>The cell that the constructor leaves at a reference.\<close>

definition wired_cell :: "int \<Rightarrow> int \<Rightarrow> nat \<Rightarrow> Cell" where
  "wired_cell w h i = (Cell_init False (i mod nat w) (i div nat w))
     \<lparr>neighbours := wire_neighbours (grid w h) w h (i mod nat w) (i div nat w) Neighbours_init\<rparr>"

text \<open>
  The cells that \<open>tick\<close> appends to \<open>changed\<close>: those alive, and those with a count
  of 3.
\<close>

definition staged :: "Cell list \<Rightarrow> nat \<Rightarrow> bool" where
  "staged cs i = (is_alive (cs ! i) \<or> get_alive_count cs (neighbours (cs ! i)) = Inr 3)"

text \<open>The state that \<open>tick\<close> stages for such a cell.\<close>

definition next_alive :: "Cell list \<Rightarrow> nat \<Rightarrow> bool" where
  "next_alive cs i =
     (case get_alive_count cs (neighbours (cs ! i)) of Inl _ \<Rightarrow> False
      | Inr n \<Rightarrow> conway (is_alive (cs ! i)) n)"

text \<open>A cell after \<open>tick\<close>.\<close>

definition next_cell :: "Cell list \<Rightarrow> nat \<Rightarrow> Cell" where
  "next_cell cs i =
     (if staged cs i
      then (cs ! i)\<lparr>state := Some (of_bool (next_alive cs i)), state_dirty := None\<rparr>
      else cs ! i)"

section \<open>Construction in closed form\<close>

lemma fold_init_cell:
  "fold (init_cell y) [0..<n] (row, cs) =
     (row @ map (\<lambda>x. length cs + x) [0..<n], cs @ map (\<lambda>x. Cell_init False x y) [0..<n])"
  by (induction n) (simp_all add: init_cell_def)

lemma init_row_eq:
  "init_row w y (b, cs) =
     (b @ [map (\<lambda>x. length cs + x) [0..<nat w]], cs @ map (\<lambda>x. Cell_init False x y) [0..<nat w])"
  by (simp add: init_row_def fold_init_cell)

lemma fold_init_row:
  "fold (init_row w) [0..<n] (b, cs) =
     (b @ map (\<lambda>y. map (\<lambda>x. length cs + y * nat w + x) [0..<nat w]) [0..<n],
      cs @ concat (map (\<lambda>y. map (\<lambda>x. Cell_init False x y) [0..<nat w]) [0..<n]))"
proof (induction n)
  case 0
  show ?case by simp
next
  case (Suc n)
  have len: "length (concat (map (\<lambda>y. map (\<lambda>x. Cell_init False x y) [0..<nat w]) [0..<n])) = n * nat w"
    by (induction n) simp_all
  show ?case
    by (simp add: Suc init_row_eq len add.assoc)
qed

lemma concat_rows_eq:
  "concat (map (\<lambda>y. map (f y) [0..<W]) [0..<H]) = map (\<lambda>i. f (i div W) (i mod W)) [0..<H * W]"
proof (induction H)
  case 0
  show ?case by simp
next
  case (Suc H)
  have "map (f H) [0..<W] = map (\<lambda>i. f (i div W) (i mod W)) [H * W..<H * W + W]"
  proof (rule nth_equalityI)
    show "length (map (f H) [0..<W]) = length (map (\<lambda>i. f (i div W) (i mod W)) [H * W..<H * W + W])"
      by simp
  next
    fix i assume "i < length (map (f H) [0..<W])"
    then have i: "i < W" by simp
    then have "(H * W + i) div W = H" "(H * W + i) mod W = i" by simp_all
    with i show "map (f H) [0..<W] ! i = map (\<lambda>i. f (i div W) (i mod W)) [H * W..<H * W + W] ! i"
      by simp
  qed
  moreover have "[0..<Suc H * W] = [0..<H * W] @ [H * W..<H * W + W]"
    using upt_add_eq_append [of 0 "H * W" W] by (simp add: add.commute)
  ultimately show ?case
    using Suc by simp
qed

lemma init_cells_eq:
  "init_cells w h =
     (map (\<lambda>y. map (\<lambda>x. y * nat w + x) [0..<nat w]) [0..<nat h],
      map (\<lambda>i. Cell_init False (i mod nat w) (i div nat w)) [0..<nat h * nat w])"
  by (simp add: init_cells_def fold_init_row concat_rows_eq)

lemma fold_wire_cell:
  "base + n \<le> length cs \<Longrightarrow>
   fold (wire_cell b w h y) (enumerate 0 (map (\<lambda>x. base + x) [0..<n])) cs =
     map (\<lambda>i. if base \<le> i \<and> i < base + n
               then (cs ! i)\<lparr>neighbours := wire_neighbours b w h (i - base) y (neighbours (cs ! i))\<rparr>
               else cs ! i) [0..<length cs]"
proof (induction n)
  case 0
  show ?case by (auto intro!: nth_equalityI)
next
  case (Suc n)
  let ?g = "\<lambda>m i. if base \<le> i \<and> i < base + m
               then (cs ! i)\<lparr>neighbours := wire_neighbours b w h (i - base) y (neighbours (cs ! i))\<rparr>
               else cs ! i"
  have en: "enumerate 0 (map (\<lambda>x. base + x) [0..<Suc n]) =
      enumerate 0 (map (\<lambda>x. base + x) [0..<n]) @ [(n, base + n)]"
    by (simp add: enumerate_append_eq)
  have ih: "fold (wire_cell b w h y) (enumerate 0 (map (\<lambda>x. base + x) [0..<n])) cs =
      map (?g n) [0..<length cs]"
    using Suc by simp
  have "wire_cell b w h y (n, base + n) (map (?g n) [0..<length cs]) = map (?g (Suc n)) [0..<length cs]"
  proof (rule nth_equalityI)
    show "length (wire_cell b w h y (n, base + n) (map (?g n) [0..<length cs])) =
        length (map (?g (Suc n)) [0..<length cs])"
      by (simp add: wire_cell_def)
  next
    fix i assume "i < length (wire_cell b w h y (n, base + n) (map (?g n) [0..<length cs]))"
    then have i: "i < length cs" by (simp add: wire_cell_def)
    from Suc.prems have bn: "base + n < length cs" by simp
    show "wire_cell b w h y (n, base + n) (map (?g n) [0..<length cs]) ! i =
        map (?g (Suc n)) [0..<length cs] ! i"
      using i bn by (auto simp: wire_cell_def nth_list_update)
  qed
  then show ?case
    by (simp only: en fold_append o_apply ih fold_simps)
qed

lemma div_mod_row:
  fixes i :: nat
  assumes "n * W \<le> i" "i < n * W + W"
  shows "i div W = n \<and> i mod W = i - n * W"
proof -
  obtain k where k: "i = n * W + k" using assms(1) le_Suc_ex by blast
  with assms(2) have "k < W" by simp
  with k show ?thesis by simp
qed

lemma fold_wire_row:
  "n * W \<le> length cs \<Longrightarrow>
   fold (wire_row b w h) (enumerate 0 (map (\<lambda>y. map (\<lambda>x. y * W + x) [0..<W]) [0..<n])) cs =
     map (\<lambda>i. if i < n * W
               then (cs ! i)\<lparr>neighbours := wire_neighbours b w h (i mod W) (i div W) (neighbours (cs ! i))\<rparr>
               else cs ! i) [0..<length cs]"
proof (induction n)
  case 0
  show ?case by (auto intro!: nth_equalityI)
next
  case (Suc n)
  let ?g = "\<lambda>m i. if i < m * W
               then (cs ! i)\<lparr>neighbours := wire_neighbours b w h (i mod W) (i div W) (neighbours (cs ! i))\<rparr>
               else cs ! i"
  let ?L = "map (?g n) [0..<length cs]"
  have en: "enumerate 0 (map (\<lambda>y. map (\<lambda>x. y * W + x) [0..<W]) [0..<Suc n]) =
      enumerate 0 (map (\<lambda>y. map (\<lambda>x. y * W + x) [0..<W]) [0..<n]) @ [(n, map (\<lambda>x. n * W + x) [0..<W])]"
    by (simp add: enumerate_append_eq)
  have ih: "fold (wire_row b w h) (enumerate 0 (map (\<lambda>y. map (\<lambda>x. y * W + x) [0..<W]) [0..<n])) cs = ?L"
    using Suc by simp
  from Suc.prems have bound: "n * W + W \<le> length ?L" by simp
  have "wire_row b w h (n, map (\<lambda>x. n * W + x) [0..<W]) ?L = map (?g (Suc n)) [0..<length cs]"
  proof (rule nth_equalityI)
    show "length (wire_row b w h (n, map (\<lambda>x. n * W + x) [0..<W]) ?L) = length (map (?g (Suc n)) [0..<length cs])"
      by (simp add: wire_row_def fold_wire_cell [OF bound])
  next
    fix i assume "i < length (wire_row b w h (n, map (\<lambda>x. n * W + x) [0..<W]) ?L)"
    then have i: "i < length cs"
      by (simp add: wire_row_def fold_wire_cell [OF bound])
    show "wire_row b w h (n, map (\<lambda>x. n * W + x) [0..<W]) ?L ! i = map (?g (Suc n)) [0..<length cs] ! i"
    proof (cases "n * W \<le> i \<and> i < n * W + W")
      case True
      then have "i div W = n \<and> i mod W = i - n * W" by (simp add: div_mod_row)
      with True i show ?thesis
        by (simp add: wire_row_def fold_wire_cell [OF bound])
    next
      case False
      with i show ?thesis
        by (auto simp: wire_row_def fold_wire_cell [OF bound])
    qed
  qed
  then show ?case
    by (simp only: en fold_append o_apply ih fold_simps)
qed

lemma Universe_init_eq:
  "Universe_init w h = Inr \<lparr>board = grid w h, cells = map (wired_cell w h) [0..<nat h * nat w]\<rparr>"
proof -
  let ?cs = "map (\<lambda>i. Cell_init False (i mod nat w) (i div nat w)) [0..<nat h * nat w]"
  have "wire_cells (grid w h) w h ?cs = map (wired_cell w h) [0..<nat h * nat w]"
    unfolding wire_cells_def grid_def [symmetric]
    unfolding grid_def [of w h]
    by (subst fold_wire_row) (auto simp: wired_cell_def Cell_init_def grid_def)
  then show ?thesis
    by (simp add: Universe_init_def init_cells_eq grid_def [symmetric])
qed

section \<open>The two loops of tick in closed form\<close>

lemma nth_update_field:
  assumes "f c = f (cs ! k)"
  shows "f (cs[k := c] ! i) = f (cs ! i)"
proof (cases "i = k \<and> k < length cs")
  case True
  with assms show ?thesis by simp
next
  case False
  then show ?thesis by (cases "i = k") (simp_all add: list_update_beyond)
qed

lemma is_alive_update:
  "state c = state (cs ! k) \<Longrightarrow> is_alive (cs[k := c] ! i) = is_alive (cs ! i)"
  by (simp add: is_alive_def nth_update_field [of state])

lemma Neighbour_state_update:
  "state c = state (cs ! k) \<Longrightarrow> Neighbour_state (cs[k := c]) s = Neighbour_state cs s"
  by (cases s) (simp_all add: Neighbour_state_def nth_update_field [of state])

lemma get_alive_count_update:
  "state c = state (cs ! k) \<Longrightarrow> get_alive_count (cs[k := c]) nb = get_alive_count cs nb"
  by (simp add: get_alive_count_def Neighbour_state_update)

lemma staged_update:
  assumes "state c = state (cs ! k)" "neighbours c = neighbours (cs ! k)"
  shows "staged (cs[k := c]) i = staged cs i"
  using assms
  by (simp add: staged_def is_alive_update get_alive_count_update
      nth_update_field [of neighbours])

lemma next_alive_update:
  assumes "state c = state (cs ! k)" "neighbours c = neighbours (cs ! k)"
  shows "next_alive (cs[k := c]) i = next_alive cs i"
  using assms
  by (simp add: next_alive_def is_alive_update get_alive_count_update
      nth_update_field [of neighbours] split: sum.split)

lemma tick_stage_eq:
  assumes "distinct rs"
    and "\<forall>r\<in>set rs. r < length cs \<and> state_dirty (cs ! r) = None"
    and "\<forall>r\<in>set rs. \<exists>n. get_alive_count cs (neighbours (cs ! r)) = Inr n"
  shows "tick_stage rs cs changed =
     Inr (map (\<lambda>i. if i \<in> set rs \<and> staged cs i
                    then (cs ! i)\<lparr>state_dirty := Some (of_bool (next_alive cs i))\<rparr>
                    else cs ! i) [0..<length cs],
          changed @ filter (staged cs) rs)"
  using assms
proof (induction rs arbitrary: cs changed)
  case Nil
  show ?case by (auto intro!: nth_equalityI)
next
  case (Cons r rs)
  from Cons.prems obtain n where n: "get_alive_count cs (neighbours (cs ! r)) = Inr n"
    by auto
  from Cons.prems have r: "r < length cs" "state_dirty (cs ! r) = None" "r \<notin> set rs"
    by auto
  show ?case
  proof (cases "staged cs r")
    case False
    then have dead: "\<not> is_alive (cs ! r)" "n \<noteq> 3"
      using n by (auto simp: staged_def)
    have "tick_stage rs cs changed =
       Inr (map (\<lambda>i. if i \<in> set rs \<and> staged cs i
                    then (cs ! i)\<lparr>state_dirty := Some (of_bool (next_alive cs i))\<rparr>
                    else cs ! i) [0..<length cs],
          changed @ filter (staged cs) rs)"
      using Cons.prems by (intro Cons.IH) auto
    with False dead n show ?thesis
      by (auto intro!: nth_equalityI)
  next
    case True
    let ?c = "(cs ! r)\<lparr>state_dirty := Some (of_bool (next_alive cs r))\<rparr>"
    let ?cs = "cs[r := ?c]"
    have same: "state ?c = state (cs ! r)" "neighbours ?c = neighbours (cs ! r)"
      by simp_all
    have ih: "tick_stage rs ?cs (changed @ [r]) =
       Inr (map (\<lambda>i. if i \<in> set rs \<and> staged ?cs i
                    then (?cs ! i)\<lparr>state_dirty := Some (of_bool (next_alive ?cs i))\<rparr>
                    else ?cs ! i) [0..<length ?cs],
          (changed @ [r]) @ filter (staged ?cs) rs)"
    proof (intro Cons.IH)
      show "distinct rs" using Cons.prems by simp
      show "\<forall>r\<in>set rs. r < length ?cs \<and> state_dirty (?cs ! r) = None"
        using Cons.prems r by (auto simp: nth_list_update)
      show "\<forall>r\<in>set rs. \<exists>n. get_alive_count ?cs (neighbours (?cs ! r)) = Inr n"
        using Cons.prems
        by (simp add: get_alive_count_update nth_update_field [of neighbours])
    qed
    have st: "staged ?cs = staged cs" "next_alive ?cs = next_alive cs"
      using same by (auto simp: fun_eq_iff staged_update next_alive_update simp del: Cell.simps)
    have step: "tick_stage (r # rs) cs changed = tick_stage rs ?cs (changed @ [r])"
      using True n r
      by (auto simp: staged_def next_alive_def conway_def set_is_alive_def)
    have mapeq: "map (\<lambda>i. if i \<in> set rs \<and> staged cs i
                    then (?cs ! i)\<lparr>state_dirty := Some (of_bool (next_alive cs i))\<rparr>
                    else ?cs ! i) [0..<length ?cs] =
          map (\<lambda>i. if i \<in> set (r # rs) \<and> staged cs i
                    then (cs ! i)\<lparr>state_dirty := Some (of_bool (next_alive cs i))\<rparr>
                    else cs ! i) [0..<length cs]"
      using True r by (auto intro!: nth_equalityI simp: nth_list_update)
    have "filter (staged cs) (r # rs) = r # filter (staged cs) rs"
      using True by simp
    then show ?thesis
      unfolding step ih st mapeq by simp
  qed
qed

lemma tick_commit_eq:
  "distinct rs \<Longrightarrow>
   tick_commit rs cs =
     Inr (map (\<lambda>i. if i \<in> set rs
                    then (cs ! i)\<lparr>state := state_dirty (cs ! i), state_dirty := None\<rparr>
                    else cs ! i) [0..<length cs])"
proof (induction rs arbitrary: cs)
  case Nil
  show ?case by (auto intro!: nth_equalityI)
next
  case (Cons r rs)
  let ?cs = "cs[r := (cs ! r)\<lparr>state := state_dirty (cs ! r), state_dirty := None\<rparr>]"
  have "tick_commit (r # rs) cs = tick_commit rs ?cs"
    by (simp add: commit_def)
  also have "\<dots> = Inr (map (\<lambda>i. if i \<in> set rs
                    then (?cs ! i)\<lparr>state := state_dirty (?cs ! i), state_dirty := None\<rparr>
                    else ?cs ! i) [0..<length ?cs])"
    using Cons.prems by (intro Cons.IH) simp
  also have "map (\<lambda>i. if i \<in> set rs
                    then (?cs ! i)\<lparr>state := state_dirty (?cs ! i), state_dirty := None\<rparr>
                    else ?cs ! i) [0..<length ?cs] =
       map (\<lambda>i. if i \<in> set (r # rs)
                    then (cs ! i)\<lparr>state := state_dirty (cs ! i), state_dirty := None\<rparr>
                    else cs ! i) [0..<length cs]"
  proof (rule nth_equalityI)
    show "length (map (\<lambda>i. if i \<in> set rs
                    then (?cs ! i)\<lparr>state := state_dirty (?cs ! i), state_dirty := None\<rparr>
                    else ?cs ! i) [0..<length ?cs]) =
       length (map (\<lambda>i. if i \<in> set (r # rs)
                    then (cs ! i)\<lparr>state := state_dirty (cs ! i), state_dirty := None\<rparr>
                    else cs ! i) [0..<length cs])"
      by simp
  next
    fix i assume "i < length (map (\<lambda>i. if i \<in> set rs
                    then (?cs ! i)\<lparr>state := state_dirty (?cs ! i), state_dirty := None\<rparr>
                    else ?cs ! i) [0..<length ?cs])"
    then have i: "i < length cs" by simp
    show "map (\<lambda>i. if i \<in> set rs
                    then (?cs ! i)\<lparr>state := state_dirty (?cs ! i), state_dirty := None\<rparr>
                    else ?cs ! i) [0..<length ?cs] ! i =
       map (\<lambda>i. if i \<in> set (r # rs)
                    then (cs ! i)\<lparr>state := state_dirty (cs ! i), state_dirty := None\<rparr>
                    else cs ! i) [0..<length cs] ! i"
    proof (cases "i = r")
      case True
      with i Cons.prems show ?thesis by simp
    next
      case False
      with i show ?thesis by simp
    qed
  qed
  finally show ?case .
qed

lemma tick_eq:
  assumes "\<forall>i<length (cells u). state_dirty (cells u ! i) = None"
    and "\<forall>i<length (cells u). \<exists>n. get_alive_count (cells u) (neighbours (cells u ! i)) = Inr n"
  shows "tick u = Inr (filter (staged (cells u)) [0..<length (cells u)],
     u\<lparr>cells := map (next_cell (cells u)) [0..<length (cells u)]\<rparr>)"
proof -
  let ?cs = "cells u" and ?rs = "[0..<length (cells u)]"
  let ?st = "map (\<lambda>i. if i \<in> set ?rs \<and> staged ?cs i
                    then (?cs ! i)\<lparr>state_dirty := Some (of_bool (next_alive ?cs i))\<rparr>
                    else ?cs ! i) [0..<length ?cs]"
  let ?ch = "filter (staged ?cs) ?rs"
  have stage: "tick_stage ?rs ?cs [] = Inr (?st, [] @ ?ch)"
    using assms by (intro tick_stage_eq) auto
  have com: "tick_commit ?ch ?st =
     Inr (map (\<lambda>i. if i \<in> set ?ch
                    then (?st ! i)\<lparr>state := state_dirty (?st ! i), state_dirty := None\<rparr>
                    else ?st ! i) [0..<length ?st])"
    by (intro tick_commit_eq) simp
  have "map (\<lambda>i. if i \<in> set ?ch
                    then (?st ! i)\<lparr>state := state_dirty (?st ! i), state_dirty := None\<rparr>
                    else ?st ! i) [0..<length ?st] = map (next_cell ?cs) ?rs"
    by (auto intro!: nth_equalityI simp: next_cell_def)
  with stage com show ?thesis
    by (simp add: tick_def)
qed

section \<open>Universes: what the invariant gives\<close>

lemma Neighbour_set_None: "Neighbour_set None v = v"
  by (cases v) (simp_all add: Neighbour_set_def)

lemma ref_bound:
  fixes x y :: nat
  assumes "x < W" "y < H"
  shows "y * W + x < H * W"
proof -
  have "y * W + x < Suc y * W" using assms(1) by simp
  also have "\<dots> \<le> H * W" using assms(2) by (intro mult_le_mono1) simp
  finally show ?thesis .
qed

lemma ref_div_mod:
  fixes x y :: nat
  assumes "x < W"
  shows "(y * W + x) div W = y" "(y * W + x) mod W = x"
  using assms by simp_all

lemma grid_nth: "x < nat w \<Longrightarrow> y < nat h \<Longrightarrow> grid w h ! y ! x = y * nat w + x"
  by (simp add: grid_def)

lemma grid_length: "length (grid w h) = nat h"
  by (simp add: grid_def)

lemma grid_row_length: "y < nat h \<Longrightarrow> length (grid w h ! y) = nat w"
  by (simp add: grid_def)

lemma get_neighbour_grid:
  "get_neighbour (grid w h) w h x y (dx, dy) =
     (if 0 \<le> int x + dx \<and> int x + dx < w \<and> 0 \<le> int y + dy \<and> int y + dy < h
      then Some (nat (int y + dy) * nat w + nat (int x + dx)) else None)"
  by (auto simp: get_neighbour_def Let_def grid_nth)

lemma universe_board: "universe w h u \<Longrightarrow> board u = grid w h"
  by (simp add: universe_def wired_def Universe_init_eq)

lemma universe_length: "universe w h u \<Longrightarrow> length (cells u) = nat h * nat w"
  by (auto simp: universe_def wired_def Universe_init_eq dest: map_eq_imp_length_eq)

lemma universe_neighbours:
  assumes "universe w h u" "i < nat h * nat w"
  shows "neighbours (cells u ! i) = neighbours (wired_cell w h i)"
proof -
  from assms(1) have eq: "map neighbours (cells u) = map neighbours (map (wired_cell w h) [0..<nat h * nat w])"
    by (simp add: universe_def wired_def Universe_init_eq)
  have "neighbours (cells u ! i) = map neighbours (cells u) ! i"
    using assms by (simp add: universe_length)
  also have "\<dots> = neighbours (wired_cell w h i)"
    using assms(2) by (simp add: eq)
  finally show ?thesis .
qed

lemma universe_pos:
  assumes "universe w h u" "i < nat h * nat w"
  shows "pos_x (cells u ! i) = i mod nat w" "pos_y (cells u ! i) = i div nat w"
proof -
  from assms(1) have eq: "map pos_x (cells u) = map pos_x (map (wired_cell w h) [0..<nat h * nat w])"
    "map pos_y (cells u) = map pos_y (map (wired_cell w h) [0..<nat h * nat w])"
    by (simp_all add: universe_def wired_def Universe_init_eq)
  have "pos_x (cells u ! i) = map pos_x (cells u) ! i" "pos_y (cells u ! i) = map pos_y (cells u) ! i"
    using assms by (simp_all add: universe_length)
  then show "pos_x (cells u ! i) = i mod nat w" "pos_y (cells u ! i) = i div nat w"
    using assms(2) by (simp_all add: eq wired_cell_def Cell_init_def)
qed

lemma universe_state:
  assumes "universe w h u" "i < nat h * nat w"
  shows "state_dirty (cells u ! i) = None" "state (cells u ! i) = Some 0 \<or> state (cells u ! i) = Some 1"
  using assms
  by (simp_all add: universe_def no_pending_def committed_def list_all_length universe_length [OF assms(1)])

lemma universe_cell_at:
  assumes "universe w h u" "x < nat w" "y < nat h"
  shows "cell_at u x y = cells u ! (y * nat w + x)"
  using assms by (simp add: cell_at_def universe_board grid_nth)

lemma of_bool_is_alive:
  "state c = Some 0 \<or> state c = Some 1 \<Longrightarrow> state c = Some (of_bool (is_alive c))"
  by (auto simp: is_alive_def)

lemma slot_state:
  assumes "universe w h u"
  shows "Neighbour_state (cells u) (get_neighbour (grid w h) w h x y (dx, dy)) =
     Some (alive_xy w h u (int x + dx) (int y + dy))"
proof (cases "0 \<le> int x + dx \<and> int x + dx < w \<and> 0 \<le> int y + dy \<and> int y + dy < h")
  case False
  then show ?thesis
    by (auto simp: get_neighbour_grid Neighbour_state_def NullCell_state_def alive_xy_def)
next
  case True
  let ?x = "nat (int x + dx)" and ?y = "nat (int y + dy)"
  from True have xy: "?x < nat w" "?y < nat h" by auto
  then have r: "?y * nat w + ?x < nat h * nat w" by (rule ref_bound)
  have "state (cells u ! (?y * nat w + ?x)) = Some (of_bool (is_alive (cells u ! (?y * nat w + ?x))))"
    using universe_state(2) [OF assms r] by (rule of_bool_is_alive)
  with True show ?thesis
    by (simp add: get_neighbour_grid Neighbour_state_def alive_xy_def universe_cell_at [OF assms xy])
qed

lemma wired_cell_neighbours:
  "neighbours (wired_cell w h i) =
     \<lparr>top_nb = get_neighbour (grid w h) w h (i mod nat w) (i div nat w) (0, -1),
      top_right = get_neighbour (grid w h) w h (i mod nat w) (i div nat w) (1, -1),
      right = get_neighbour (grid w h) w h (i mod nat w) (i div nat w) (1, 0),
      bottom_right = get_neighbour (grid w h) w h (i mod nat w) (i div nat w) (1, 1),
      bottom = get_neighbour (grid w h) w h (i mod nat w) (i div nat w) (0, 1),
      bottom_left = get_neighbour (grid w h) w h (i mod nat w) (i div nat w) (-1, 1),
      left = get_neighbour (grid w h) w h (i mod nat w) (i div nat w) (-1, 0),
      top_left = get_neighbour (grid w h) w h (i mod nat w) (i div nat w) (-1, -1)\<rparr>"
  by (simp add: wired_cell_def wire_neighbours_def Neighbours_init_def Neighbour_set_None Let_def
      Neighbours_top_def Neighbours_top_right_def Neighbours_right_def Neighbours_bottom_right_def
      Neighbours_bottom_def Neighbours_bottom_left_def Neighbours_left_def Neighbours_top_left_def)

lemma universe_count_ref:
  assumes "universe w h u" "i < nat h * nat w"
  shows "get_alive_count (cells u) (neighbours (cells u ! i)) =
     Inr (moore_count w h u (int (i mod nat w)) (int (i div nat w)))"
  by (simp add: universe_neighbours [OF assms] wired_cell_neighbours get_alive_count_def
      slot_state [OF assms(1)] py_add_def moore_count_def)

lemma universe_count:
  assumes "universe w h u" "x < nat w" "y < nat h"
  shows "get_alive_count (cells u) (neighbours (cell_at u x y)) =
     Inr (moore_count w h u (int x) (int y))"
  using universe_count_ref [OF assms(1) ref_bound [OF assms(2,3)]] assms(2)
  by (simp add: universe_cell_at [OF assms])

section \<open>tick on a universe\<close>

lemma next_cell_fields:
  "neighbours (next_cell cs i) = neighbours (cs ! i)"
  "pos_x (next_cell cs i) = pos_x (cs ! i)"
  "pos_y (next_cell cs i) = pos_y (cs ! i)"
  by (simp_all add: next_cell_def)

lemma universe_staged:
  assumes "universe w h u" "i < nat h * nat w"
  shows "staged (cells u) i =
     (is_alive (cells u ! i) \<or> moore_count w h u (int (i mod nat w)) (int (i div nat w)) = 3)"
  by (simp add: staged_def universe_count_ref [OF assms])

lemma universe_next_alive:
  assumes "universe w h u" "i < nat h * nat w"
  shows "next_alive (cells u) i =
     conway (is_alive (cells u ! i)) (moore_count w h u (int (i mod nat w)) (int (i div nat w)))"
  by (simp add: next_alive_def universe_count_ref [OF assms])

lemma universe_next_cell:
  assumes "universe w h u" "i < nat h * nat w"
  shows "next_cell (cells u) i = (cells u ! i)\<lparr>state := Some (of_bool (next_alive (cells u) i))\<rparr>"
proof (cases "staged (cells u) i")
  case True
  then show ?thesis
    using universe_state(1) [OF assms] by (simp add: next_cell_def)
next
  case False
  then have "\<not> is_alive (cells u ! i)" "\<not> next_alive (cells u) i"
    using assms by (auto simp: universe_staged universe_next_alive conway_def)
  moreover have "state (cells u ! i) = Some (of_bool (is_alive (cells u ! i)))"
    using universe_state(2) [OF assms] by (rule of_bool_is_alive)
  ultimately show ?thesis
    using False by (simp add: next_cell_def)
qed

lemma universe_is_alive_next:
  assumes "universe w h u" "i < nat h * nat w"
  shows "is_alive (next_cell (cells u) i) =
     conway (is_alive (cells u ! i)) (moore_count w h u (int (i mod nat w)) (int (i div nat w)))"
  by (simp add: universe_next_cell [OF assms] universe_next_alive [OF assms] is_alive_def)

lemma universe_tick:
  assumes "universe w h u"
  shows "tick u = Inr (filter (staged (cells u)) [0..<nat h * nat w],
     u\<lparr>cells := map (next_cell (cells u)) [0..<nat h * nat w]\<rparr>)"
proof -
  have "tick u = Inr (filter (staged (cells u)) [0..<length (cells u)],
     u\<lparr>cells := map (next_cell (cells u)) [0..<length (cells u)]\<rparr>)"
    using universe_state(1) [OF assms] universe_count_ref [OF assms]
    by (intro tick_eq) (simp_all add: universe_length [OF assms])
  then show ?thesis
    by (simp add: universe_length [OF assms])
qed

lemma universe_next:
  assumes "universe w h u"
  shows "universe w h (u\<lparr>cells := map (next_cell (cells u)) [0..<nat h * nat w]\<rparr>)"
proof -
  let ?n = "nat h * nat w"
  have len: "length (cells u) = ?n" by (rule universe_length [OF assms])
  have nb: "map neighbours (map (next_cell (cells u)) [0..<?n]) = map neighbours (cells u)"
    and px: "map pos_x (map (next_cell (cells u)) [0..<?n]) = map pos_x (cells u)"
    and py: "map pos_y (map (next_cell (cells u)) [0..<?n]) = map pos_y (cells u)"
    by (auto intro!: nth_equalityI simp: len next_cell_fields)
  have "list_all (\<lambda>c. state_dirty c = None) (map (next_cell (cells u)) [0..<?n])"
    using universe_state(1) [OF assms]
    by (simp add: list_all_length universe_next_cell [OF assms])
  moreover have "list_all (\<lambda>c. state c = Some 0 \<or> state c = Some 1) (map (next_cell (cells u)) [0..<?n])"
    by (simp add: list_all_length universe_next_cell [OF assms])
  ultimately show ?thesis
    using assms nb px py unfolding universe_def wired_def no_pending_def committed_def
    by (simp split: sum.splits)
qed

section \<open>Construction and seeding of a universe\<close>

lemma universe_init:
  "universe w h \<lparr>board = grid w h, cells = map (wired_cell w h) [0..<nat h * nat w]\<rparr>"
  by (simp add: universe_def wired_def Universe_init_eq no_pending_def committed_def
      list_all_length wired_cell_def Cell_init_def)

lemma py_index_in:
  assumes "- int (length xs) \<le> i" "i < int (length xs)"
  shows "py_index xs i = Inr (xs ! nat (i mod int (length xs)))"
proof (cases "i < 0")
  case True
  with assms have "i mod int (length xs) = i + int (length xs)"
    by (smt (verit) mod_add_self2 mod_pos_pos_trivial)
  with True assms show ?thesis by (simp add: py_index_def Let_def)
next
  case False
  with assms have "i mod int (length xs) = i" by simp
  with False assms show ?thesis by (simp add: py_index_def Let_def)
qed

lemma py_index_out:
  "\<not> (- int (length xs) \<le> i \<and> i < int (length xs)) \<Longrightarrow> py_index xs i = Inl IndexError"
  by (auto simp: py_index_def Let_def)

lemma commit_staged:
  "state_dirty c = None \<Longrightarrow> c\<lparr>state := a, state_dirty := None\<rparr> = c\<lparr>state := a\<rparr>"
  by (cases c) simp

lemma universe_setitem:
  assumes u: "universe w h u" and x: "- w \<le> x" "x < w" and y: "- h \<le> y" "y < h"
  defines "r \<equiv> nat (y mod h) * nat w + nat (x mod w)"
  shows "setitem u (x, y) alive =
     Inr (u\<lparr>cells := (cells u)[r := (cells u ! r)\<lparr>state := Some (of_bool alive)\<rparr>]\<rparr>)"
proof -
  from x y have pos: "0 < w" "0 < h" by auto
  have ym: "nat (y mod h) < nat h" and xm: "nat (x mod w) < nat w"
    using pos by (simp_all add: nat_less_iff)
  have "py_index (board u) y = Inr (grid w h ! nat (y mod h))"
    using py_index_in [of "grid w h" y] y pos
    by (simp add: universe_board [OF u] grid_length)
  moreover have "py_index (grid w h ! nat (y mod h)) x = Inr r"
    using py_index_in [of "grid w h ! nat (y mod h)" x] x pos ym xm
    by (simp add: grid_row_length grid_nth r_def)
  moreover have "r < nat h * nat w"
    unfolding r_def using xm ym by (rule ref_bound)
  then have "state_dirty (cells u ! r) = None"
    by (rule universe_state(1) [OF u])
  ultimately show ?thesis
    by (simp add: setitem_def set_is_alive_def commit_def commit_staged del: of_bool_eq_iff)
qed

lemma universe_setitem_out:
  assumes u: "universe w h u" and out: "\<not> (- w \<le> x \<and> x < w \<and> - h \<le> y \<and> y < h)"
  shows "setitem u (x, y) alive = Inl (IndexError, u)"
proof (cases "- h \<le> y \<and> y < h")
  case False
  then have "py_index (board u) y = Inl IndexError"
    using py_index_out [of "grid w h" y]
    by (auto simp: universe_board [OF u] grid_length)
  then show ?thesis by (simp add: setitem_def)
next
  case True
  then have pos: "0 < h" by auto
  then have ym: "nat (y mod h) < nat h" by (simp add: nat_less_iff)
  have row: "py_index (board u) y = Inr (grid w h ! nat (y mod h))"
    using py_index_in [of "grid w h" y] True pos
    by (simp add: universe_board [OF u] grid_length)
  have "py_index (grid w h ! nat (y mod h)) x = Inl IndexError"
    using py_index_out [of "grid w h ! nat (y mod h)" x] out True ym
    by (auto simp: grid_row_length)
  with row show ?thesis by (simp add: setitem_def)
qed

lemma universe_update_state:
  assumes "universe w h u" "s = Some 0 \<or> s = Some 1"
  shows "universe w h (u\<lparr>cells := (cells u)[r := (cells u ! r)\<lparr>state := s\<rparr>]\<rparr>)"
proof -
  let ?cs = "(cells u)[r := (cells u ! r)\<lparr>state := s\<rparr>]"
  have "map neighbours ?cs = map neighbours (cells u)" "map pos_x ?cs = map pos_x (cells u)"
    "map pos_y ?cs = map pos_y (cells u)"
    by (auto intro!: nth_equalityI
        simp: nth_update_field [of neighbours] nth_update_field [of pos_x] nth_update_field [of pos_y])
  moreover have "list_all (\<lambda>c. state_dirty c = None) ?cs"
    using assms(1)
    by (simp add: universe_def no_pending_def list_all_length nth_update_field [of state_dirty])
  moreover have "list_all (\<lambda>c. state c = Some 0 \<or> state c = Some 1) ?cs"
  proof (cases "r < length (cells u)")
    case True
    with assms show ?thesis
      by (auto simp: universe_def committed_def list_all_length nth_list_update)
  next
    case False
    with assms(1) show ?thesis
      by (simp add: universe_def committed_def list_update_beyond)
  qed
  ultimately show ?thesis
    using assms(1) unfolding universe_def wired_def no_pending_def committed_def
    by (simp split: sum.splits)
qed

lemma seed_universe:
  assumes "universe w h u" "list_all (\<lambda>(x, y). - w \<le> x \<and> x < w \<and> - h \<le> y \<and> y < h) keys"
  shows "\<exists>u'. seed u keys = Inr u' \<and> universe w h u'"
  using assms
proof (induction keys arbitrary: u)
  case Nil
  then show ?case by simp
next
  case (Cons key keys)
  obtain x y where key: "key = (x, y)" by (cases key)
  let ?r = "nat (y mod h) * nat w + nat (x mod w)"
  let ?u = "u\<lparr>cells := (cells u)[?r := (cells u ! ?r)\<lparr>state := Some (of_bool True)\<rparr>]\<rparr>"
  from Cons.prems key have "setitem u key True = Inr ?u"
    by (simp add: universe_setitem del: of_bool_eq_iff)
  moreover have "universe w h ?u"
    using Cons.prems(1) by (rule universe_update_state) simp
  then have "\<exists>u'. seed ?u keys = Inr u' \<and> universe w h u'"
    using Cons.prems(2) by (intro Cons.IH) simp_all
  ultimately show ?case by simp
qed

lemma universe_seeded:
  assumes "list_all (\<lambda>(x, y). - w \<le> x \<and> x < w \<and> - h \<le> y \<and> y < h) keys"
  shows "universe w h (seeded w h keys)"
  using seed_universe [OF universe_init assms]
  by (auto simp: seeded_def Universe_init_eq)

lemma reachable_universe: "reachable w h u \<Longrightarrow> universe w h u"
proof (induction rule: reachable.induct)
  case (construct w h u)
  then show ?case using universe_init [of w h] by (simp add: Universe_init_eq)
next
  case (seed w h u key alive u')
  obtain x y where key: "key = (x, y)" by (cases key)
  show ?case
  proof (cases "- w \<le> x \<and> x < w \<and> - h \<le> y \<and> y < h")
    case True
    with seed key have "u' = u\<lparr>cells := (cells u)[nat (y mod h) * nat w + nat (x mod w) :=
        (cells u ! (nat (y mod h) * nat w + nat (x mod w)))\<lparr>state := Some (of_bool alive)\<rparr>]\<rparr>"
      by (simp add: universe_setitem del: of_bool_eq_iff)
    with seed.IH show ?thesis
      by (simp add: universe_update_state del: of_bool_eq_iff)
  next
    case False
    with seed key show ?thesis by (simp add: universe_setitem_out)
  qed
next
  case (step w h u changed u')
  then show ?case by (auto simp: universe_tick universe_next)
qed

section \<open>Patterns\<close>

lemma ref_coords:
  fixes i :: nat
  assumes "i < nat h * nat w"
  shows "int (i mod nat w) < w" "int (i div nat w) < h" "0 \<le> int (i mod nat w)" "0 \<le> int (i div nat w)"
proof -
  from assms have w: "0 < nat w" by (cases "nat w") simp_all
  then have "i mod nat w < nat w" by simp
  then show "int (i mod nat w) < w" by linarith
  from assms w have "i div nat w < nat h"
    by (simp add: less_mult_imp_div_less)
  then show "int (i div nat w) < h" by linarith
qed simp_all

lemma pattern_alive:
  assumes "universe w h u" "pattern w h u P" "i < nat h * nat w"
  shows "is_alive (cells u ! i) = P (int (i mod nat w)) (int (i div nat w))"
proof -
  have "is_alive (cells u ! i) = map is_alive (cells u) ! i"
    using assms(3) by (simp add: universe_length [OF assms(1)])
  also have "\<dots> = P (int (i mod nat w)) (int (i div nat w))"
    using assms(2,3) by (simp add: pattern_def)
  finally show ?thesis .
qed

lemma pattern_cong:
  assumes "\<And>x y. 0 \<le> x \<Longrightarrow> x < w \<Longrightarrow> 0 \<le> y \<Longrightarrow> y < h \<Longrightarrow> P x y = Q x y"
  shows "pattern w h u P = pattern w h u Q"
proof -
  have "map (\<lambda>i. P (int (i mod nat w)) (int (i div nat w))) [0..<nat h * nat w] =
      map (\<lambda>i. Q (int (i mod nat w)) (int (i div nat w))) [0..<nat h * nat w]"
    by (rule map_cong) (simp_all add: assms ref_coords)
  then show ?thesis unfolding pattern_def by (rule arg_cong)
qed

lemma pattern_alive_xy:
  assumes "universe w h u" "pattern w h u P"
  shows "alive_xy w h u x y = of_bool (inside w h P x y)"
proof (cases "0 \<le> x \<and> x < w \<and> 0 \<le> y \<and> y < h")
  case False
  then show ?thesis by (auto simp: alive_xy_def inside_def)
next
  case True
  then have xy: "nat x < nat w" "nat y < nat h" by auto
  have "is_alive (cell_at u (nat x) (nat y)) = P x y"
    using True xy ref_div_mod [OF xy(1), of "nat y"]
    by (simp add: universe_cell_at [OF assms(1) xy] pattern_alive [OF assms ref_bound [OF xy]])
  with True show ?thesis by (simp add: alive_xy_def inside_def)
qed

lemma pattern_count:
  assumes "universe w h u" "pattern w h u P"
  shows "moore_count w h u x y = count8 (inside w h P) x y"
  by (simp add: moore_count_def count8_def pattern_alive_xy [OF assms])

lemma pattern_staged:
  assumes "universe w h u" "pattern w h u P" "i < nat h * nat w"
  shows "staged (cells u) i =
     (P (int (i mod nat w)) (int (i div nat w))
      \<or> count8 (inside w h P) (int (i mod nat w)) (int (i div nat w)) = 3)"
  by (simp add: universe_staged [OF assms(1,3)] pattern_alive [OF assms] pattern_count [OF assms(1,2)])

lemma pattern_changed:
  assumes "universe w h u" "pattern w h u P"
  shows "filter (staged (cells u)) [0..<nat h * nat w] =
     filter (\<lambda>i. P (int (i mod nat w)) (int (i div nat w))
       \<or> count8 (inside w h P) (int (i mod nat w)) (int (i div nat w)) = 3) [0..<nat h * nat w]"
  by (rule filter_cong) (simp_all add: pattern_staged [OF assms])

lemma pattern_next:
  assumes "universe w h u" "pattern w h u P"
  shows "pattern w h (u\<lparr>cells := map (next_cell (cells u)) [0..<nat h * nat w]\<rparr>)
     (\<lambda>x y. conway (P x y) (count8 (inside w h P) x y))"
  unfolding pattern_def
  by (rule nth_equalityI)
    (simp_all add: universe_is_alive_next [OF assms(1)] pattern_alive [OF assms] pattern_count [OF assms])

lemma universe_eqI:
  assumes u: "universe w h u" and u': "universe w h u'"
    and alive: "map is_alive (cells u) = map is_alive (cells u')"
  shows "u = u'"
proof -
  have len: "length (cells u) = nat h * nat w" "length (cells u') = nat h * nat w"
    by (simp_all add: universe_length [OF u] universe_length [OF u'])
  have "cells u ! i = cells u' ! i" if i: "i < nat h * nat w" for i
  proof -
    have "is_alive (cells u ! i) = is_alive (cells u' ! i)"
      using alive i len by (metis nth_map)
    moreover have "state (cells u ! i) = Some (of_bool (is_alive (cells u ! i)))"
      using universe_state(2) [OF u i] by (rule of_bool_is_alive)
    moreover have "state (cells u' ! i) = Some (of_bool (is_alive (cells u' ! i)))"
      using universe_state(2) [OF u' i] by (rule of_bool_is_alive)
    ultimately have "state (cells u ! i) = state (cells u' ! i)" by simp
    then show ?thesis
      by (simp add: Cell.equality universe_state(1) [OF u i] universe_state(1) [OF u' i]
          universe_pos [OF u i] universe_pos [OF u' i]
          universe_neighbours [OF u i] universe_neighbours [OF u' i])
  qed
  then have "cells u = cells u'"
    by (intro nth_equalityI) (simp_all add: len)
  then show ?thesis
    by (simp add: Universe.equality universe_board [OF u] universe_board [OF u'])
qed

lemma pattern_eqI:
  assumes "universe w h u" "universe w h u'" "pattern w h u P" "pattern w h u' P"
  shows "u = u'"
  using assms(3,4) by (intro universe_eqI [OF assms(1,2)]) (simp add: pattern_def)

section \<open>Blinker and block\<close>

lemma row3_step: "conway (row3 cx cy x y) (count8 (row3 cx cy) x y) = col3 cx cy x y"
proof -
  consider "y < cy - 1" | "y = cy - 1" | "y = cy" | "y = cy + 1" | "cy + 1 < y" by linarith
  then show ?thesis
  proof cases
    case 1 then show ?thesis by (simp add: conway_def count8_def row3_def col3_def)
  next
    case 5 then show ?thesis by (simp add: conway_def count8_def row3_def col3_def)
  next
    case 2
    consider "x < cx - 2" | "x = cx - 2" | "x = cx - 1" | "x = cx" | "x = cx + 1" | "x = cx + 2" | "cx + 2 < x" by linarith
    then show ?thesis using 2 by cases (simp_all add: conway_def count8_def row3_def col3_def)
  next
    case 3
    consider "x < cx - 2" | "x = cx - 2" | "x = cx - 1" | "x = cx" | "x = cx + 1" | "x = cx + 2" | "cx + 2 < x" by linarith
    then show ?thesis using 3 by cases (simp_all add: conway_def count8_def row3_def col3_def)
  next
    case 4
    consider "x < cx - 2" | "x = cx - 2" | "x = cx - 1" | "x = cx" | "x = cx + 1" | "x = cx + 2" | "cx + 2 < x" by linarith
    then show ?thesis using 4 by cases (simp_all add: conway_def count8_def row3_def col3_def)
  qed
qed

lemma row3_changed:
  "(row3 cx cy x y \<or> count8 (row3 cx cy) x y = 3) = (row3 cx cy x y \<or> col3 cx cy x y)"
  using row3_step [of cx cy x y] by (cases "row3 cx cy x y") (simp_all add: conway_def)



lemma block2_step: "conway (block2 bx by x y) (count8 (block2 bx by) x y) = block2 bx by x y"
proof -
  consider "y < by - 1" | "y = by - 1" | "y = by" | "y = by + 1" | "y = by + 2" | "by + 2 < y" by linarith
  then show ?thesis
  proof cases
    case 1 then show ?thesis by (simp add: conway_def count8_def block2_def)
  next
    case 6 then show ?thesis by (simp add: conway_def count8_def block2_def)
  next
    case 2
    consider "x < bx - 1" | "x = bx - 1" | "x = bx" | "x = bx + 1" | "x = bx + 2" | "bx + 2 < x" by linarith
    then show ?thesis using 2 by cases (simp_all add: conway_def count8_def block2_def)
  next
    case 3
    consider "x < bx - 1" | "x = bx - 1" | "x = bx" | "x = bx + 1" | "x = bx + 2" | "bx + 2 < x" by linarith
    then show ?thesis using 3 by cases (simp_all add: conway_def count8_def block2_def)
  next
    case 4
    consider "x < bx - 1" | "x = bx - 1" | "x = bx" | "x = bx + 1" | "x = bx + 2" | "bx + 2 < x" by linarith
    then show ?thesis using 4 by cases (simp_all add: conway_def count8_def block2_def)
  next
    case 5
    consider "x < bx - 1" | "x = bx - 1" | "x = bx" | "x = bx + 1" | "x = bx + 2" | "bx + 2 < x" by linarith
    then show ?thesis using 5 by cases (simp_all add: conway_def count8_def block2_def)
  qed
qed

lemma block2_changed:
  "(block2 bx by x y \<or> count8 (block2 bx by) x y = 3) = block2 bx by x y"
  using block2_step [of bx "by" x y] by (cases "block2 bx by x y") (simp_all add: conway_def)

lemma inside_row3: "1 \<le> cx \<Longrightarrow> cx + 1 < w \<Longrightarrow> 0 \<le> cy \<Longrightarrow> cy < h \<Longrightarrow> inside w h (row3 cx cy) = row3 cx cy"
  by (auto simp: inside_def row3_def fun_eq_iff)


lemma inside_block2: "0 \<le> bx \<Longrightarrow> bx + 1 < w \<Longrightarrow> 0 \<le> by \<Longrightarrow> by + 1 < h \<Longrightarrow> inside w h (block2 bx by) = block2 bx by"
  by (auto simp: inside_def block2_def fun_eq_iff)

lemma pattern_tick:
  assumes u: "universe w h u" and p: "pattern w h u P"
    and step: "\<And>x y. 0 \<le> x \<Longrightarrow> x < w \<Longrightarrow> 0 \<le> y \<Longrightarrow> y < h \<Longrightarrow>
      conway (P x y) (count8 (inside w h P) x y) = Q x y"
  shows "\<exists>u'. tick u = Inr (filter (\<lambda>i. P (int (i mod nat w)) (int (i div nat w))
       \<or> count8 (inside w h P) (int (i mod nat w)) (int (i div nat w)) = 3) [0..<nat h * nat w], u')
     \<and> universe w h u' \<and> pattern w h u' Q"
proof -
  let ?u = "u\<lparr>cells := map (next_cell (cells u)) [0..<nat h * nat w]\<rparr>"
  have "pattern w h ?u (\<lambda>x y. conway (P x y) (count8 (inside w h P) x y))"
    by (rule pattern_next [OF u p])
  then have "pattern w h ?u Q"
    using pattern_cong [of w h "\<lambda>x y. conway (P x y) (count8 (inside w h P) x y)" Q ?u] step
    by simp
  then show ?thesis
    using universe_tick [OF u] universe_next [OF u] pattern_changed [OF u p] by simp
qed

lemma blinker_row3:
  assumes "universe w h u" "pattern w h u (row3 cx cy)"
    and "1 \<le> cx" "cx + 1 < w" "1 \<le> cy" "cy + 1 < h"
  shows "\<exists>u'. tick u = Inr (filter (\<lambda>i. row3 cx cy (int (i mod nat w)) (int (i div nat w))
       \<or> col3 cx cy (int (i mod nat w)) (int (i div nat w))) [0..<nat h * nat w], u')
     \<and> universe w h u' \<and> pattern w h u' (col3 cx cy)"
proof -
  have "inside w h (row3 cx cy) = row3 cx cy"
    using assms(3-6) by (intro inside_row3) simp_all
  then show ?thesis
    using pattern_tick [OF assms(1,2), of "col3 cx cy"]
    by (simp add: row3_step row3_changed)
qed


lemma block_still:
  assumes "universe w h u" "pattern w h u (block2 bx by)"
    and "0 \<le> bx" "bx + 1 < w" "0 \<le> by" "by + 1 < h"
  shows "tick u = Inr (filter (\<lambda>i. block2 bx by (int (i mod nat w)) (int (i div nat w)))
       [0..<nat h * nat w], u)"
proof -
  have "inside w h (block2 bx by) = block2 bx by"
    using assms(3-6) by (intro inside_block2) simp_all
  then obtain u' where u': "tick u = Inr (filter (\<lambda>i. block2 bx by (int (i mod nat w)) (int (i div nat w)))
       [0..<nat h * nat w], u')" "universe w h u'" "pattern w h u' (block2 bx by)"
    using pattern_tick [OF assms(1,2), of "block2 bx by"]
    by (auto simp: block2_step block2_changed)
  have "u' = u"
    using u'(2) assms(1) u'(3) assms(2) by (rule pattern_eqI)
  with u'(1) show ?thesis by simp
qed

lemma ref_eq:
  fixes i :: nat
  assumes "0 \<le> x" "x < w" "0 \<le> y"
  shows "i = nat y * nat w + nat x \<longleftrightarrow> int (i mod nat w) = x \<and> int (i div nat w) = y"
proof
  assume "i = nat y * nat w + nat x"
  moreover from assms have "nat x < nat w" by simp
  ultimately show "int (i mod nat w) = x \<and> int (i div nat w) = y"
    using assms by (simp add: ref_div_mod)
next
  assume "int (i mod nat w) = x \<and> int (i div nat w) = y"
  then have "nat x = i mod nat w" "nat y = i div nat w" by auto
  then show "i = nat y * nat w + nat x" by simp
qed

lemma setitem_pattern:
  assumes u: "universe w h u" and p: "pattern w h u P"
    and xy: "0 \<le> x" "x < w" "0 \<le> y" "y < h"
  shows "pattern w h (u\<lparr>cells := (cells u)[nat y * nat w + nat x :=
       (cells u ! (nat y * nat w + nat x))\<lparr>state := Some (of_bool alive)\<rparr>]\<rparr>)
     (\<lambda>x' y'. if x' = x \<and> y' = y then alive else P x' y')"
  unfolding pattern_def
proof (rule nth_equalityI)
  let ?r = "nat y * nat w + nat x"
  let ?cs = "(cells u)[?r := (cells u ! ?r)\<lparr>state := Some (of_bool alive)\<rparr>]"
  let ?u = "u\<lparr>cells := ?cs\<rparr>"
  show "length (map is_alive (cells ?u)) =
      length (map (\<lambda>i. if int (i mod nat w) = x \<and> int (i div nat w) = y then alive
        else P (int (i mod nat w)) (int (i div nat w))) [0..<nat h * nat w])"
    by (simp add: universe_length [OF u])
  fix i assume "i < length (map is_alive (cells ?u))"
  then have i: "i < nat h * nat w" by (simp add: universe_length [OF u])
  show "map is_alive (cells ?u) ! i =
      map (\<lambda>i. if int (i mod nat w) = x \<and> int (i div nat w) = y then alive
        else P (int (i mod nat w)) (int (i div nat w))) [0..<nat h * nat w] ! i"
  proof (cases "i = ?r")
    case True
    with i ref_eq [OF xy(1-3), of i] show ?thesis
      by (simp add: universe_length [OF u] is_alive_def)
  next
    case False
    with i ref_eq [OF xy(1-3), of i] show ?thesis
      by (auto simp: universe_length [OF u] pattern_alive [OF u p])
  qed
qed

lemma seed_pattern:
  assumes "universe w h u" "pattern w h u P"
    and "list_all (\<lambda>(x, y). 0 \<le> x \<and> x < w \<and> 0 \<le> y \<and> y < h) keys"
  shows "\<exists>u'. seed u keys = Inr u' \<and> universe w h u'
     \<and> pattern w h u' (\<lambda>x y. (x, y) \<in> set keys \<or> P x y)"
  using assms
proof (induction keys arbitrary: u P)
  case Nil
  then show ?case by simp
next
  case (Cons key keys)
  obtain x y where key: "key = (x, y)" by (cases key)
  with Cons.prems have xy: "0 \<le> x" "x < w" "0 \<le> y" "y < h" by simp_all
  let ?r = "nat y * nat w + nat x"
  let ?u = "u\<lparr>cells := (cells u)[?r := (cells u ! ?r)\<lparr>state := Some (of_bool True)\<rparr>]\<rparr>"
  have "setitem u (x, y) True =
      Inr (u\<lparr>cells := (cells u)[nat (y mod h) * nat w + nat (x mod w) :=
        (cells u ! (nat (y mod h) * nat w + nat (x mod w)))\<lparr>state := Some (of_bool True)\<rparr>]\<rparr>)"
    using Cons.prems(1) xy by (intro universe_setitem) simp_all
  then have set: "setitem u key True = Inr ?u"
    using xy key by simp
  have u': "universe w h ?u"
    using Cons.prems(1) by (rule universe_update_state) simp
  have p': "pattern w h ?u (\<lambda>x' y'. if x' = x \<and> y' = y then True else P x' y')"
    using Cons.prems(1,2) xy by (rule setitem_pattern)
  have "\<exists>u'. seed ?u keys = Inr u' \<and> universe w h u'
     \<and> pattern w h u' (\<lambda>x' y'. (x', y') \<in> set keys \<or> (if x' = x \<and> y' = y then True else P x' y'))"
    using u' p' Cons.prems(3) by (intro Cons.IH) simp_all
  moreover have "(\<lambda>x' y'. (x', y') \<in> set keys \<or> (if x' = x \<and> y' = y then True else P x' y')) =
      (\<lambda>x' y'. (x', y') \<in> set (key # keys) \<or> P x' y')"
    using key by (auto simp: fun_eq_iff)
  ultimately show ?case
    using set by simp
qed

lemma seeded_pattern:
  assumes "list_all (\<lambda>(x, y). 0 \<le> x \<and> x < w \<and> 0 \<le> y \<and> y < h) keys"
  shows "pattern w h (seeded w h keys) (\<lambda>x y. (x, y) \<in> set keys)"
proof -
  let ?u = "\<lparr>board = grid w h, cells = map (wired_cell w h) [0..<nat h * nat w]\<rparr>"
  have "pattern w h ?u (\<lambda>x y. False)"
    by (simp add: pattern_def wired_cell_def Cell_init_def is_alive_def)
  from seed_pattern [OF universe_init this assms] show ?thesis
    by (auto simp: seeded_def Universe_init_eq)
qed

section \<open>Reachable universes with live cells\<close>

lemma seed_reachable:
  assumes "reachable w h u" "list_all (\<lambda>(x, y). - w \<le> x \<and> x < w \<and> - h \<le> y \<and> y < h) keys"
  shows "\<exists>u'. seed u keys = Inr u' \<and> reachable w h u'"
  using assms
proof (induction keys arbitrary: u)
  case Nil
  then show ?case by simp
next
  case (Cons key keys)
  obtain x y where key: "key = (x, y)" by (cases key)
  from Cons.prems(1) have u: "universe w h u" by (rule reachable_universe)
  from Cons.prems(2) key obtain u1 where set: "setitem u key True = Inr u1"
    using universe_setitem [OF u, of x y True] by auto
  with Cons.prems(1) have "reachable w h u1" by (rule reachable.seed)
  then have "\<exists>u'. seed u1 keys = Inr u' \<and> reachable w h u'"
    using Cons.prems(2) by (intro Cons.IH) simp_all
  with set show ?case by simp
qed

lemma reachable_seeded:
  assumes "list_all (\<lambda>(x, y). - w \<le> x \<and> x < w \<and> - h \<le> y \<and> y < h) keys"
  shows "reachable w h (seeded w h keys)"
proof -
  let ?u = "\<lparr>board = grid w h, cells = map (wired_cell w h) [0..<nat h * nat w]\<rparr>"
  have "reachable w h ?u"
    by (rule reachable.construct) (simp add: Universe_init_eq)
  from seed_reachable [OF this assms] show ?thesis
    by (auto simp: seeded_def Universe_init_eq)
qed

lemma row_3_3:
  "universe 3 3 (seeded 3 3 [(0, 1), (1, 1), (2, 1)])"
  "pattern 3 3 (seeded 3 3 [(0, 1), (1, 1), (2, 1)]) (row3 1 1)"
proof -
  let ?u = "seeded 3 3 [(0, 1), (1, 1), (2, 1)]"
  show "universe 3 3 ?u"
    by (rule universe_seeded) simp
  have "pattern 3 3 ?u (\<lambda>x y. (x, y) \<in> set [(0, 1), (1, 1), (2, 1)])"
    by (rule seeded_pattern) simp
  moreover have "pattern 3 3 ?u (\<lambda>x y. (x, y) \<in> set [(0, 1), (1, 1), (2, 1)]) =
      pattern 3 3 ?u (row3 1 1)"
    by (rule pattern_cong) (auto simp: row3_def)
  ultimately show "pattern 3 3 ?u (row3 1 1)" by simp
qed

lemma row_3_3_tick:
  "\<exists>u'. tick (seeded 3 3 [(0, 1), (1, 1), (2, 1)]) = Inr ([1, 3, 4, 5, 7], u')"
proof -
  have f: "filter (\<lambda>i. row3 1 1 (int (i mod nat 3)) (int (i div nat 3))
       \<or> col3 1 1 (int (i mod nat 3)) (int (i div nat 3))) [0..<nat 3 * nat 3] = [1, 3, 4, 5, 7]"
    by code_simp
  from blinker_row3 [OF row_3_3, unfolded f] show ?thesis by auto
qed

section \<open>Cell: stage and commit\<close>

text \<open>
  C5. A stage on a cell with no staged value pending returns normally, records the
  integer of the given boolean as the pending value and leaves the committed state as
  it was. Every further stage on the resulting cell raises (the \<open>assert\<close> of the setter,
  the spec's StagingConflict) and leaves the cell, committed state and pending value,
  as it was.
\<close>

theorem stage_once:
  "state_dirty c = None \<Longrightarrow>
   \<exists>c'. set_is_alive c alive = Inr c'
      \<and> state c' = state c
      \<and> state_dirty c' = Some (of_bool alive)
      \<and> (\<forall>again. set_is_alive c' again = Inl (AssertionError, c'))"
  by (simp add: set_is_alive_def)

theorem stage_once_witness:
  "state_dirty (Cell_init False 2 1) = None
   \<and> (\<exists>c'. set_is_alive (Cell_init False 2 1) True = Inr c'
      \<and> state c' = state (Cell_init False 2 1)
      \<and> state_dirty c' = Some (of_bool True)
      \<and> (\<forall>again. set_is_alive c' again = Inl (AssertionError, c')))"
proof -
  have pending: "state_dirty (Cell_init False 2 1) = None"
    by (simp add: Cell_init_def)
  from stage_once [OF pending, of True] pending show ?thesis
    by blast
qed

text \<open>
  C4, as the code has it. \<open>commit\<close> never raises. It moves the pending slot into the
  committed state and clears the slot: a staged value becomes the committed state, and
  with nothing staged the committed state becomes \<open>None\<close>, which reads as dead.
\<close>

theorem commit_moves_pending:
  "\<exists>c'. commit c = Inr c'
      \<and> state c' = state_dirty c
      \<and> state_dirty c' = None
      \<and> is_alive c' = (case state_dirty c of None \<Rightarrow> False | Some n \<Rightarrow> n \<noteq> 0)"
  by (simp add: commit_def is_alive_def)

text \<open>
  C4 as stated fails: a live cell with nothing staged is committed without an error,
  and its committed state changes, from alive to \<open>None\<close>.
\<close>

theorem commit_unstaged_counterexample:
  "state_dirty (Cell_init True 0 0) = None
   \<and> is_alive (Cell_init True 0 0)
   \<and> (\<exists>c'. commit (Cell_init True 0 0) = Inr c' \<and> state c' = None \<and> \<not> is_alive c')"
  by (simp add: commit_def Cell_init_def is_alive_def)

section \<open>The tick rule\<close>

text \<open>
  C1. In every universe a tick returns normally, and for every cell of the store: the
  count that the rule reads, \<open>get_alive_count\<close> on the store as it is before the tick, is
  the number of live cells among the eight coordinates around the cell's own, in the
  generation before the tick and with 0 for a coordinate outside the grid; and the cell
  is alive after the tick exactly if it was alive and the count is 2 or 3, or it was dead
  and the count is 3.
\<close>

theorem tick_rule:
  assumes "universe w h u" and "i < length (cells u)"
  shows "\<exists>n changed u'. tick u = Inr (changed, u')
     \<and> get_alive_count (cells u) (neighbours (cells u ! i)) = Inr n
     \<and> n = moore_count w h u (int (pos_x (cells u ! i))) (int (pos_y (cells u ! i)))
     \<and> (is_alive (cells u' ! i) \<longleftrightarrow>
          (is_alive (cells u ! i) \<and> (n = 2 \<or> n = 3)) \<or> (\<not> is_alive (cells u ! i) \<and> n = 3))"
proof -
  from assms have i: "i < nat h * nat w" by (simp add: universe_length)
  let ?n = "moore_count w h u (int (i mod nat w)) (int (i div nat w))"
  let ?u = "u\<lparr>cells := map (next_cell (cells u)) [0..<nat h * nat w]\<rparr>"
  have "tick u = Inr (filter (staged (cells u)) [0..<nat h * nat w], ?u)"
    by (rule universe_tick [OF assms(1)])
  moreover have "get_alive_count (cells u) (neighbours (cells u ! i)) = Inr ?n"
    by (rule universe_count_ref [OF assms(1) i])
  moreover have "?n = moore_count w h u (int (pos_x (cells u ! i))) (int (pos_y (cells u ! i)))"
    by (simp add: universe_pos [OF assms(1) i])
  moreover have "is_alive (cells ?u ! i) \<longleftrightarrow>
      (is_alive (cells u ! i) \<and> (?n = 2 \<or> ?n = 3)) \<or> (\<not> is_alive (cells u ! i) \<and> ?n = 3)"
    using i by (simp add: universe_is_alive_next [OF assms(1) i] conway_def)
  ultimately show ?thesis by blast
qed

theorem tick_rule_witness:
  "universe 3 3 (seeded 3 3 [(0, 1), (1, 1), (2, 1)])
   \<and> 4 < length (cells (seeded 3 3 [(0, 1), (1, 1), (2, 1)]))
   \<and> (\<exists>n changed u'. tick (seeded 3 3 [(0, 1), (1, 1), (2, 1)]) = Inr (changed, u')
     \<and> get_alive_count (cells (seeded 3 3 [(0, 1), (1, 1), (2, 1)]))
          (neighbours (cells (seeded 3 3 [(0, 1), (1, 1), (2, 1)]) ! 4)) = Inr n
     \<and> n = moore_count 3 3 (seeded 3 3 [(0, 1), (1, 1), (2, 1)])
          (int (pos_x (cells (seeded 3 3 [(0, 1), (1, 1), (2, 1)]) ! 4)))
          (int (pos_y (cells (seeded 3 3 [(0, 1), (1, 1), (2, 1)]) ! 4)))
     \<and> (is_alive (cells u' ! 4) \<longleftrightarrow>
          (is_alive (cells (seeded 3 3 [(0, 1), (1, 1), (2, 1)]) ! 4) \<and> (n = 2 \<or> n = 3))
          \<or> (\<not> is_alive (cells (seeded 3 3 [(0, 1), (1, 1), (2, 1)]) ! 4) \<and> n = 3)))"
proof -
  have u: "universe 3 3 (seeded 3 3 [(0, 1), (1, 1), (2, 1)])"
    by (rule universe_seeded) simp
  have i: "4 < length (cells (seeded 3 3 [(0, 1), (1, 1), (2, 1)]))"
    by (simp add: universe_length [OF u])
  from tick_rule [OF u i] u i show ?thesis
    by (intro conjI)
qed

section \<open>Construction\<close>

text \<open>
  C3, as the code has it. The constructor never raises, whatever the width and the
  height. It builds \<open>height\<close> rows and \<open>width * height\<close> cells when both are at least 1,
  and no cell when one of them is below 1; every cell is dead and has nothing staged.
\<close>

theorem construct_never_fails:
  "\<exists>u. Universe_init w h = Inr u
     \<and> length (board u) = nat h
     \<and> length (cells u) = nat w * nat h
     \<and> (cells u = [] \<longleftrightarrow> w < 1 \<or> h < 1)
     \<and> map is_alive (cells u) = replicate (nat w * nat h) False
     \<and> no_pending u"
proof -
  let ?u = "\<lparr>board = grid w h, cells = map (wired_cell w h) [0..<nat h * nat w]\<rparr>"
  have "map is_alive (cells ?u) = replicate (nat w * nat h) False"
    by (auto intro!: nth_equalityI simp: wired_cell_def Cell_init_def is_alive_def mult.commute)
  moreover have "no_pending ?u"
    using universe_init [of w h] by (simp add: universe_def)
  moreover have "cells ?u = [] \<longleftrightarrow> w < 1 \<or> h < 1"
    by auto
  ultimately show ?thesis
    by (simp add: Universe_init_eq grid_length mult.commute)
qed

text \<open>
  C3 as stated fails: \<open>construct(0, 5)\<close> and \<open>construct(5, 0)\<close> return a universe, of
  five empty rows and of no row.
\<close>

theorem construct_counterexample:
  "Universe_init 0 5 = Inr \<lparr>board = [[], [], [], [], []], cells = []\<rparr>
   \<and> Universe_init 5 0 = Inr \<lparr>board = [], cells = []\<rparr>"
  by (simp add: Universe_init_eq grid_def upt_rec)

section \<open>Snapshot\<close>

text \<open>
  C6. In every universe \<open>to_list\<close> returns one row per row of the grid and one boolean
  per column, the committed state of the cell at that coordinate, and leaves the universe
  as it was; a second call, on the universe the first one leaves, returns the same.
\<close>

theorem snapshot_pure:
  assumes "universe w h u"
  shows "to_list u = (map (\<lambda>y. map (\<lambda>x. is_alive (cell_at u x y)) [0..<nat w]) [0..<nat h], u)
     \<and> to_list (snd (to_list u)) = to_list u"
  by (simp add: to_list_def universe_board [OF assms] grid_def cell_at_def comp_def)

theorem snapshot_pure_witness:
  "universe 2 1 (seeded 2 1 [(1, 0)])
   \<and> to_list (seeded 2 1 [(1, 0)]) =
       (map (\<lambda>y. map (\<lambda>x. is_alive (cell_at (seeded 2 1 [(1, 0)]) x y)) [0..<nat 2]) [0..<nat 1],
        seeded 2 1 [(1, 0)])
   \<and> to_list (snd (to_list (seeded 2 1 [(1, 0)]))) = to_list (seeded 2 1 [(1, 0)])"
proof -
  have u: "universe 2 1 (seeded 2 1 [(1, 0)])"
    by (rule universe_seeded) simp
  from snapshot_pure [OF u] u show ?thesis
    by (intro conjI) simp_all
qed

section \<open>The stable state\<close>

lemma universe_cell_at_update:
  assumes u: "universe w h u" and xy: "x < nat w" "y < nat h" "x' < nat w" "y' < nat h"
  shows "cell_at (u\<lparr>cells := (cells u)[y * nat w + x := c]\<rparr>) x' y' =
     (if x' = x \<and> y' = y then c else cell_at u x' y')"
proof -
  have r: "y * nat w + x < length (cells u)"
    using ref_bound [OF xy(1,2)] by (simp add: universe_length [OF u])
  show ?thesis
  proof (cases "x' = x \<and> y' = y")
    case True
    with r xy show ?thesis
      by (simp add: cell_at_def universe_board [OF u] grid_nth)
  next
    case False
    then have "y' * nat w + x' \<noteq> y * nat w + x"
      using ref_div_mod [OF xy(1), of y] ref_div_mod [OF xy(3), of y'] by metis
    with False xy show ?thesis
      by (auto simp: cell_at_def universe_board [OF u] grid_nth)
  qed
qed

text \<open>
  C9. A universe that the constructor, \<open>__setitem__\<close> and \<open>tick\<close> have built has no
  staged value pending in any cell. On it \<open>tick\<close> returns normally and leaves no
  staged value pending; \<open>__setitem__\<close> either returns normally and leaves no staged value
  pending, or raises \<open>IndexError\<close> for its coordinates and leaves the universe as it
  was, so neither meets a pending stage; and \<open>to_list\<close> leaves the universe as it was.
\<close>

theorem stable_invariant:
  assumes "reachable w h u"
  shows "no_pending u
     \<and> (\<exists>changed u'. tick u = Inr (changed, u') \<and> no_pending u')
     \<and> (\<forall>key alive. case setitem u key alive of
           Inl (e, u') \<Rightarrow> e = IndexError \<and> u' = u
         | Inr u' \<Rightarrow> no_pending u')
     \<and> snd (to_list u) = u"
proof -
  from assms have u: "universe w h u" by (rule reachable_universe)
  have "\<exists>changed u'. tick u = Inr (changed, u') \<and> no_pending u'"
    using universe_tick [OF u] universe_next [OF u] by (simp add: universe_def)
  moreover have "case setitem u key alive of
           Inl (e, u') \<Rightarrow> e = IndexError \<and> u' = u
         | Inr u' \<Rightarrow> no_pending u'" for key alive
  proof -
    obtain x y where key: "key = (x, y)" by (cases key)
    show ?thesis
    proof (cases "- w \<le> x \<and> x < w \<and> - h \<le> y \<and> y < h")
      case True
      let ?u = "u\<lparr>cells := (cells u)[nat (y mod h) * nat w + nat (x mod w) :=
        (cells u ! (nat (y mod h) * nat w + nat (x mod w)))\<lparr>state := Some (of_bool alive)\<rparr>]\<rparr>"
      have "universe w h ?u"
        using u by (rule universe_update_state) simp
      then have "no_pending ?u" by (simp add: universe_def)
      moreover have "setitem u key alive = Inr ?u"
        using True u key by (simp add: universe_setitem del: of_bool_eq_iff)
      ultimately show ?thesis by simp
    next
      case False
      with u key show ?thesis by (simp add: universe_setitem_out)
    qed
  qed
  ultimately show ?thesis
    using u by (simp add: universe_def to_list_def)
qed

theorem stable_invariant_witness:
  "reachable 3 3 (seeded 3 3 [(0, 1), (1, 1), (2, 1)])
   \<and> no_pending (seeded 3 3 [(0, 1), (1, 1), (2, 1)])
   \<and> (\<exists>u'. tick (seeded 3 3 [(0, 1), (1, 1), (2, 1)]) = Inr ([1, 3, 4, 5, 7], u')
        \<and> no_pending u'
        \<and> reachable 3 3 u'
        \<and> (\<exists>changed' u''. tick u' = Inr (changed', u'') \<and> no_pending u'')
        \<and> (\<exists>u''. setitem u' (0, 0) True = Inr u'' \<and> no_pending u'')
        \<and> snd (to_list u') = u')
   \<and> (\<exists>u'. setitem (seeded 3 3 [(0, 1), (1, 1), (2, 1)]) (- 1, 0) False = Inr u' \<and> no_pending u')
   \<and> setitem (seeded 3 3 [(0, 1), (1, 1), (2, 1)]) (3, 0) True =
        Inl (IndexError, seeded 3 3 [(0, 1), (1, 1), (2, 1)])
   \<and> snd (to_list (seeded 3 3 [(0, 1), (1, 1), (2, 1)])) = seeded 3 3 [(0, 1), (1, 1), (2, 1)]"
proof -
  let ?u = "seeded 3 3 [(0, 1), (1, 1), (2, 1)]"
  have r: "reachable 3 3 ?u"
    by (rule reachable_seeded) simp
  note inv = stable_invariant [OF r]
  from row_3_3_tick obtain u' where t: "tick ?u = Inr ([1, 3, 4, 5, 7], u')" by blast
  with inv have n': "no_pending u'" by auto
  from r t have r': "reachable 3 3 u'" by (rule reachable.step)
  note inv' = stable_invariant [OF r']
  from r' have "universe 3 3 u'" by (rule reachable_universe)
  then obtain v where v: "setitem u' (0, 0) True = Inr v"
    using universe_setitem [of 3 3 u' 0 0 True] by auto
  from inv' have "case setitem u' (0, 0) True of
      Inl (e, u'') \<Rightarrow> e = IndexError \<and> u'' = u' | Inr u'' \<Rightarrow> no_pending u''"
    by blast
  with v have nv: "no_pending v" by simp
  obtain k where k: "setitem ?u (- 1, 0) False = Inr k"
    using universe_setitem [OF row_3_3(1), of "- 1" 0 False] by auto
  from inv have "case setitem ?u (- 1, 0) False of
      Inl (e, u'') \<Rightarrow> e = IndexError \<and> u'' = ?u | Inr u'' \<Rightarrow> no_pending u''"
    by blast
  with k have nk: "no_pending k" by simp
  have out: "setitem ?u (3, 0) True = Inl (IndexError, ?u)"
    using row_3_3(1) by (rule universe_setitem_out) simp
  from inv' obtain changed' u'' where t': "tick u' = Inr (changed', u'')" "no_pending u''"
    by blast
  from inv have "no_pending ?u" "snd (to_list ?u) = ?u" by blast+
  moreover from inv' have "snd (to_list u') = u'" by blast
  ultimately show ?thesis
    using r t n' r' t' v nv k nk out by blast
qed

section \<open>Seeding with negative coordinates\<close>

text \<open>
  C10, as the code has it. In every universe, for coordinates with
  \<open>-width \<le> x < width\<close> and \<open>-height \<le> y < height\<close>, \<open>__setitem__\<close> returns normally:
  the cell at \<open>(x mod width, y mod height)\<close> gets the given state, so a negative
  coordinate counts from the opposite edge, every other cell stays as it was, and the
  result is a universe again.
\<close>

theorem setitem_wraps:
  assumes "universe w h u" and "- w \<le> x" and "x < w" and "- h \<le> y" and "y < h"
  shows "\<exists>u'. setitem u (x, y) alive = Inr u'
     \<and> universe w h u'
     \<and> is_alive (cell_at u' (nat (x mod w)) (nat (y mod h))) = alive
     \<and> (\<forall>x' y'. x' < nat w \<longrightarrow> y' < nat h \<longrightarrow> (x', y') \<noteq> (nat (x mod w), nat (y mod h))
           \<longrightarrow> cell_at u' x' y' = cell_at u x' y')"
proof -
  let ?x = "nat (x mod w)" and ?y = "nat (y mod h)"
  let ?c = "(cells u ! (?y * nat w + ?x))\<lparr>state := Some (of_bool alive)\<rparr>"
  let ?u = "u\<lparr>cells := (cells u)[?y * nat w + ?x := ?c]\<rparr>"
  from assms have pos: "0 < w" "0 < h" by auto
  then have xy: "?x < nat w" "?y < nat h" by (simp_all add: nat_less_iff)
  have "setitem u (x, y) alive = Inr ?u"
    using assms by (rule universe_setitem)
  moreover have "universe w h ?u"
    using assms(1) by (rule universe_update_state) simp
  moreover have "is_alive (cell_at ?u ?x ?y) = alive"
    using xy by (simp add: universe_cell_at_update [OF assms(1)] is_alive_def)
  moreover have "cell_at ?u x' y' = cell_at u x' y'"
    if "x' < nat w" "y' < nat h" "(x', y') \<noteq> (?x, ?y)" for x' y'
    using that xy by (auto simp: universe_cell_at_update [OF assms(1)])
  ultimately show ?thesis by blast
qed

theorem setitem_wraps_witness:
  "universe 3 3 (seeded 3 3 []) \<and> - 3 \<le> (- 1 :: int) \<and> (- 1 :: int) < 3
   \<and> - 3 \<le> (- 3 :: int) \<and> (- 3 :: int) < 3
   \<and> (\<exists>u'. setitem (seeded 3 3 []) (- 1, - 3) True = Inr u'
     \<and> universe 3 3 u'
     \<and> is_alive (cell_at u' 2 0) = True)"
proof -
  have u: "universe 3 3 (seeded 3 3 [])"
    by (rule universe_seeded) simp
  from setitem_wraps [OF u, of "- 1" "- 3" True] u show ?thesis
    by auto
qed

text \<open>
  C10 as stated fails: with \<open>x = -1\<close>, which lies between \<open>-width\<close> and 0, and \<open>y = 5\<close>
  in a universe of 3 by 3 cells, \<open>__setitem__\<close> raises \<open>IndexError\<close>.
\<close>

theorem setitem_wraps_counterexample:
  "universe 3 3 (seeded 3 3 []) \<and> - 3 \<le> (- 1 :: int) \<and> (- 1 :: int) < 0
   \<and> setitem (seeded 3 3 []) (- 1, 5) True = Inl (IndexError, seeded 3 3 [])"
proof -
  have u: "universe 3 3 (seeded 3 3 [])"
    by (rule universe_seeded) simp
  then show ?thesis
    by (simp add: universe_setitem_out)
qed

section \<open>Still life and oscillator\<close>

text \<open>
  C2, at the failing input: a universe of 4 by 4 cells that holds a block of 2 by 2 live
  cells at the coordinates (1,1), (2,1), (1,2) and (2,2), away from every edge. No
  cell changes its state in the tick, the universe after it is the universe before it,
  and \<open>tick\<close> returns the four cells of the block, the references 5, 6, 9 and 10, not
  an empty sequence: a live cell that survives is appended to \<open>changed\<close> as well.
\<close>

theorem block_tick_returns_block:
  "tick (seeded 4 4 [(1, 1), (2, 1), (1, 2), (2, 2)]) =
     Inr ([5, 6, 9, 10], seeded 4 4 [(1, 1), (2, 1), (1, 2), (2, 2)])"
proof -
  let ?u = "seeded 4 4 [(1, 1), (2, 1), (1, 2), (2, 2)]"
  have u: "universe 4 4 ?u"
    by (rule universe_seeded) simp
  have "pattern 4 4 ?u (\<lambda>x y. (x, y) \<in> set [(1, 1), (2, 1), (1, 2), (2, 2)])"
    by (rule seeded_pattern) simp
  moreover have "pattern 4 4 ?u (\<lambda>x y. (x, y) \<in> set [(1, 1), (2, 1), (1, 2), (2, 2)]) =
      pattern 4 4 ?u (block2 1 1)"
    by (rule pattern_cong) (auto simp: block2_def)
  ultimately have p: "pattern 4 4 ?u (block2 1 1)" by simp
  have "filter (\<lambda>i. block2 1 1 (int (i mod nat 4)) (int (i div nat 4))) [0..<nat 4 * nat 4] =
      [5, 6, 9, 10]"
    by code_simp
  with block_still [OF u p] show ?thesis by simp
qed







section \<open>The corner\<close>

text \<open>
  C8. In every universe of width and height at least 2, three of the eight neighbour
  slots of the cell at (0,0) hold a cell, those at (1,0), (1,1) and (0,1), and the
  other five are absent, so that they resolve to the dead \<open>Cell.NULL\<close>. If that cell is
  the only live one, its count of live neighbours is 0 and it is dead after one tick.
\<close>

theorem corner_cell:
  assumes "universe w h u" and "2 \<le> w" and "2 \<le> h"
  shows "neighbours (cell_at u 0 0) =
       \<lparr>top_nb = None, top_right = None, right = Some (board u ! 0 ! 1),
        bottom_right = Some (board u ! 1 ! 1), bottom = Some (board u ! 1 ! 0),
        bottom_left = None, left = None, top_left = None\<rparr>
     \<and> (pattern w h u (\<lambda>x y. x = 0 \<and> y = 0) \<longrightarrow>
          is_alive (cell_at u 0 0)
          \<and> get_alive_count (cells u) (neighbours (cell_at u 0 0)) = Inr 0
          \<and> (\<exists>changed u'. tick u = Inr (changed, u') \<and> \<not> is_alive (cell_at u' 0 0)))"
proof
  from assms have wh: "0 < nat w" "0 < nat h" "1 < nat w" "1 < nat h" by simp_all
  then have i: "0 < nat h * nat w" by simp
  have c: "cell_at v 0 0 = cells v ! 0" if "universe w h v" for v
    using universe_cell_at [OF that wh(1,2)] by simp
  show "neighbours (cell_at u 0 0) =
       \<lparr>top_nb = None, top_right = None, right = Some (board u ! 0 ! 1),
        bottom_right = Some (board u ! 1 ! 1), bottom = Some (board u ! 1 ! 0),
        bottom_left = None, left = None, top_left = None\<rparr>"
    using assms(2,3) wh
    by (simp add: c [OF assms(1)] universe_neighbours [OF assms(1) i] wired_cell_neighbours
        get_neighbour_grid universe_board [OF assms(1)] grid_nth)
  show "pattern w h u (\<lambda>x y. x = 0 \<and> y = 0) \<longrightarrow>
          is_alive (cell_at u 0 0)
          \<and> get_alive_count (cells u) (neighbours (cell_at u 0 0)) = Inr 0
          \<and> (\<exists>changed u'. tick u = Inr (changed, u') \<and> \<not> is_alive (cell_at u' 0 0))"
  proof
    assume p: "pattern w h u (\<lambda>x y. x = 0 \<and> y = 0)"
    let ?u = "u\<lparr>cells := map (next_cell (cells u)) [0..<nat h * nat w]\<rparr>"
    have n: "moore_count w h u 0 0 = 0"
      by (simp add: pattern_count [OF assms(1) p] count8_def inside_def)
    have a: "is_alive (cell_at u 0 0)"
      using pattern_alive [OF assms(1) p i] by (simp add: c [OF assms(1)])
    moreover have "get_alive_count (cells u) (neighbours (cell_at u 0 0)) = Inr 0"
      using universe_count [OF assms(1) wh(1,2)] n by simp
    moreover have "\<not> is_alive (cell_at ?u 0 0)"
      using universe_is_alive_next [OF assms(1) i] n i
      by (simp add: c [OF universe_next [OF assms(1)]] conway_def)
    ultimately show "is_alive (cell_at u 0 0)
          \<and> get_alive_count (cells u) (neighbours (cell_at u 0 0)) = Inr 0
          \<and> (\<exists>changed u'. tick u = Inr (changed, u') \<and> \<not> is_alive (cell_at u' 0 0))"
      using universe_tick [OF assms(1)] by blast
  qed
qed

theorem corner_cell_witness:
  "universe 2 2 (seeded 2 2 [(0, 0)]) \<and> (2 :: int) \<le> 2
   \<and> pattern 2 2 (seeded 2 2 [(0, 0)]) (\<lambda>x y. x = 0 \<and> y = 0)
   \<and> neighbours (cell_at (seeded 2 2 [(0, 0)]) 0 0) =
       \<lparr>top_nb = None, top_right = None, right = Some (board (seeded 2 2 [(0, 0)]) ! 0 ! 1),
        bottom_right = Some (board (seeded 2 2 [(0, 0)]) ! 1 ! 1),
        bottom = Some (board (seeded 2 2 [(0, 0)]) ! 1 ! 0),
        bottom_left = None, left = None, top_left = None\<rparr>
   \<and> is_alive (cell_at (seeded 2 2 [(0, 0)]) 0 0)
   \<and> get_alive_count (cells (seeded 2 2 [(0, 0)])) (neighbours (cell_at (seeded 2 2 [(0, 0)]) 0 0)) = Inr 0
   \<and> (\<exists>changed u'. tick (seeded 2 2 [(0, 0)]) = Inr (changed, u') \<and> \<not> is_alive (cell_at u' 0 0))"
proof -
  let ?u = "seeded 2 2 [(0, 0)]"
  have u: "universe 2 2 ?u"
    by (rule universe_seeded) simp
  have "pattern 2 2 ?u (\<lambda>x y. (x, y) \<in> set [(0, 0)])"
    by (rule seeded_pattern) simp
  then have p: "pattern 2 2 ?u (\<lambda>x y. x = 0 \<and> y = 0)" by simp
  have two: "(2 :: int) \<le> 2" by simp
  from corner_cell [OF u two two] u p two show ?thesis
    by blast
qed

end
